theory Spec2Isabelle
  imports Main "HOL-Library.AList"
begin

section \<open>JSON documents addressed by paths\<close>

text \<open>
  The workflow of \<^verbatim>\<open>src/patterns/gen-ai/aws-text-to-sql/index.ts\<close> threads one JSON
  document (the state input, called the execution context) through its states and
  addresses it with path strings such as \<^verbatim>\<open>'$.queryConfig.Payload'\<close>. A path is
  modelled as the list of its keys: \<^verbatim>\<open>'$'\<close> is \<open>[]\<close> and
  \<^verbatim>\<open>'$.queryConfig.Payload'\<close> is \<open>[''queryConfig'', ''Payload'']\<close>.
\<close>

datatype json =
    JNull
  | JBool bool
  | JNum int
  | JStr string
  | JArr "json list"
  | JObj "(string \<times> json) list"

type_synonym path = "string list"

fun field :: "string \<Rightarrow> json \<Rightarrow> json option" where
  "field k (JObj kvs) = map_of kvs k"
| "field k _ = None"

fun get_path :: "path \<Rightarrow> json \<Rightarrow> json option" where
  "get_path [] j = Some j"
| "get_path (k # ks) j = (case field k j of None \<Rightarrow> None | Some v \<Rightarrow> get_path ks v)"

text \<open>
  Writing a task result under a result path: the value replaces what the path selects,
  missing intermediate objects are created, and a path that runs through a value that is
  not an object cannot be written (\<open>None\<close>).
\<close>

fun set_path :: "path \<Rightarrow> json \<Rightarrow> json \<Rightarrow> json option" where
  "set_path [] v j = Some v"
| "set_path (k # ks) v (JObj kvs) =
     (case set_path ks v (case map_of kvs k of Some old \<Rightarrow> old | None \<Rightarrow> JObj []) of
        None \<Rightarrow> None
      | Some new \<Rightarrow> Some (JObj (AList.update k new kvs)))"
| "set_path (k # ks) v _ = None"

section \<open>The state machine definition\<close>

text \<open>
  One constructor for each state object the constructor of \<open>TextToSql\<close> creates, under
  the name of the variable that holds it. \<open>queryExecutorState\<close> names the
  \<^verbatim>\<open>execute_query\<close> task (the variable holds the chain that starts there).
\<close>

datatype state =
    reformulateQuestionState
  | reformulatedQuestionFeedbackState
  | generatedQueryFeedbackOneState
  | generatedQueryFeedbackTwoState
  | queryGeneratorOneState
  | alternateQueryGeneratorState
  | autocorrectChoiceState
  | configureCountState
  | iteratorState
  | isCountReachedState
  | queryGeneratorTwoState
  | outputState
  | queryExecutorState
  | feedbackChoiceStateOne
  | feedbackChoiceStateTwo
  | feedbackChoiceStateThree
  | executeQueryChoiceState

datatype lambda_function =
    reformulateQuestionFunction
  | queryGeneratorFunction
  | queryExecutorFunction
  | autocorrectQueryFunction

text \<open>The two queues, under their construct ids (the first is the variable \<^verbatim>\<open>queue\<close>).\<close>

datatype sqs_queue = userFeedbackQueue | outputQueue

datatype integration_pattern = REQUEST_RESPONSE | WAIT_FOR_TASK_TOKEN

text \<open>The values a message body field is built from (\<^verbatim>\<open>TaskInput\<close>, \<^verbatim>\<open>JsonPath\<close>).\<close>

datatype task_input =
    literal string
  | fromJsonPathAt path
  | stringAt path
  | taskToken

text \<open>
  The conditions of the graph-building library. The workflow only ever builds
  \<open>stringEquals\<close> and \<open>booleanEquals\<close>; the other constructors are the compound, numeric
  and presence conditions the library offers as well.
\<close>

datatype condition =
    stringEquals path string
  | booleanEquals path bool
  | numberEquals path int
  | numberLessThan path int
  | numberGreaterThan path int
  | isPresent path
  | cond_not condition
  | cond_and condition condition
  | cond_or condition condition

text \<open>
  A state as the source configures it. \<open>LambdaInvoke\<close>: function, result path, next.
  \<open>SqsSendMessage\<close>: queue, message body, integration pattern, next (its result path is
  the default \<^verbatim>\<open>'$'\<close>). \<open>Pass\<close>: result, result path, next. \<open>Choice\<close>: input path,
  the \<^verbatim>\<open>when\<close> rules in declaration order, and the \<^verbatim>\<open>otherwise\<close> target. A state
  without a next state ends the execution.
\<close>

datatype state_def =
    LambdaInvoke lambda_function path "state option"
  | SqsSendMessage sqs_queue "(string \<times> task_input) list" integration_pattern "state option"
  | Pass json path "state option"
  | Choice path "(condition \<times> state) list" "state option"

definition feedback_on_question_body :: "(string \<times> task_input) list" where
  "feedback_on_question_body =
     [(''message'', literal ''Following is the reformulated question. Do you agree with the new question?''),
      (''reformualted_question'', fromJsonPathAt [''reformulated_user_question'']),
      (''user_question'', fromJsonPathAt [''user_question'']),
      (''question_unique_id'', fromJsonPathAt [''question_unique_id'']),
      (''TaskToken'', taskToken)]"

definition feedback_on_query_body :: "(string \<times> task_input) list" where
  "feedback_on_query_body =
     [(''message'', literal ''Following is the generated query. Do you agree with it or want to override?''),
      (''generated_query'', stringAt [''queryConfig'', ''Payload'', ''validated_sql_query'']),
      (''reformualted_question'', fromJsonPathAt [''reformulated_user_question'']),
      (''user_question'', fromJsonPathAt [''user_question'']),
      (''question_unique_id'', fromJsonPathAt [''question_unique_id'']),
      (''TaskToken'', taskToken)]"

definition publish_body :: "(string \<times> task_input) list" where
  "publish_body =
     [(''result'', fromJsonPathAt [''queryStatus'', ''Payload'', ''result'']),
      (''user_question'', fromJsonPathAt [''user_question'']),
      (''question_unique_id'', fromJsonPathAt [''question_unique_id''])]"

text \<open>
  The graph, read off the \<^verbatim>\<open>new ...\<close> expressions and the \<^verbatim>\<open>next\<close>, \<^verbatim>\<open>when\<close> and
  \<^verbatim>\<open>otherwise\<close> calls of the constructor.
\<close>

fun definition_of :: "state \<Rightarrow> state_def" where
  "definition_of reformulateQuestionState =
     LambdaInvoke reformulateQuestionFunction [''queryConfig'']
       (Some feedbackChoiceStateOne)"
| "definition_of feedbackChoiceStateOne =
     Choice [''queryConfig'', ''Payload'']
       [(stringEquals [''semantic_layer_strategy''] ''human'', reformulatedQuestionFeedbackState)]
       (Some queryGeneratorTwoState)"
| "definition_of reformulatedQuestionFeedbackState =
     SqsSendMessage userFeedbackQueue feedback_on_question_body WAIT_FOR_TASK_TOKEN
       (Some queryGeneratorOneState)"
| "definition_of queryGeneratorOneState =
     LambdaInvoke queryGeneratorFunction [''queryConfig'']
       (Some feedbackChoiceStateThree)"
| "definition_of feedbackChoiceStateThree =
     Choice []
       [(stringEquals [''queryConfig'', ''Payload'', ''sql_validation_strategy''] ''human'',
         generatedQueryFeedbackOneState)]
       (Some executeQueryChoiceState)"
| "definition_of generatedQueryFeedbackOneState =
     SqsSendMessage userFeedbackQueue feedback_on_query_body WAIT_FOR_TASK_TOKEN
       (Some executeQueryChoiceState)"
| "definition_of queryGeneratorTwoState =
     LambdaInvoke queryGeneratorFunction [''queryConfig'']
       (Some feedbackChoiceStateTwo)"
| "definition_of feedbackChoiceStateTwo =
     Choice []
       [(stringEquals [''queryConfig'', ''Payload'', ''sql_validation_strategy''] ''human'',
         generatedQueryFeedbackTwoState)]
       (Some executeQueryChoiceState)"
| "definition_of generatedQueryFeedbackTwoState =
     SqsSendMessage userFeedbackQueue feedback_on_query_body WAIT_FOR_TASK_TOKEN
       (Some executeQueryChoiceState)"
| "definition_of executeQueryChoiceState =
     Choice []
       [(stringEquals [''queryConfig'', ''Payload'', ''execute_sql_strategy''] ''disabled'',
         outputState)]
       (Some queryExecutorState)"
| "definition_of queryExecutorState =
     LambdaInvoke queryExecutorFunction [''queryStatus'']
       (Some autocorrectChoiceState)"
| "definition_of autocorrectChoiceState =
     Choice []
       [(stringEquals [''queryStatus'', ''Payload'', ''status''] ''QUERY_ERROR'',
         configureCountState)]
       (Some outputState)"
| "definition_of configureCountState =
     Pass (JObj [(''count'', JNum 3), (''index'', JNum 0), (''step'', JNum 1)]) [''iterator'']
       (Some iteratorState)"
| "definition_of iteratorState =
     LambdaInvoke autocorrectQueryFunction [''iterator'']
       (Some isCountReachedState)"
| "definition_of isCountReachedState =
     Choice []
       [(booleanEquals [''iterator'', ''Payload'', ''continue''] True,
         alternateQueryGeneratorState)]
       (Some outputState)"
| "definition_of alternateQueryGeneratorState =
     LambdaInvoke queryGeneratorFunction [''queryConfig'']
       (Some iteratorState)"
| "definition_of outputState =
     SqsSendMessage outputQueue publish_body REQUEST_RESPONSE None"

text \<open>The state the definition starts with: \<^verbatim>\<open>definition: reformulateQuestionState.next(...)\<close>.\<close>

definition startState :: state where
  "startState = reformulateQuestionState"

section \<open>Executing the definition\<close>

text \<open>
  The service that interprets the definition is outside the repository; the states are
  executed as that service executes the synthesized definition. A task's result is
  written into the state input under the result path. The input path of a branch point
  selects the part of the state input that its rules are evaluated on and that it passes
  on. The rules of a branch point are tried in declaration order and the first that
  matches decides; the \<^verbatim>\<open>otherwise\<close> branch is taken when none matches. A comparison
  whose path selects nothing does not count as a mismatch: it is an error that fails the
  execution at the branch point (\<open>None\<close> below); only \<open>isPresent\<close> may look at a path that
  is absent. A value of another type than the literal is a mismatch.
\<close>

fun eval_condition :: "json \<Rightarrow> condition \<Rightarrow> bool option" where
  "eval_condition i (stringEquals p s) =
     (case get_path p i of None \<Rightarrow> None | Some v \<Rightarrow> Some (v = JStr s))"
| "eval_condition i (booleanEquals p b) =
     (case get_path p i of None \<Rightarrow> None | Some v \<Rightarrow> Some (v = JBool b))"
| "eval_condition i (numberEquals p n) =
     (case get_path p i of None \<Rightarrow> None | Some v \<Rightarrow> Some (v = JNum n))"
| "eval_condition i (numberLessThan p n) =
     (case get_path p i of None \<Rightarrow> None | Some (JNum m) \<Rightarrow> Some (m < n) | Some _ \<Rightarrow> Some False)"
| "eval_condition i (numberGreaterThan p n) =
     (case get_path p i of None \<Rightarrow> None | Some (JNum m) \<Rightarrow> Some (n < m) | Some _ \<Rightarrow> Some False)"
| "eval_condition i (isPresent p) = Some (get_path p i \<noteq> None)"
| "eval_condition i (cond_not c) = map_option Not (eval_condition i c)"
| "eval_condition i (cond_and c d) =
     (case eval_condition i c of
        None \<Rightarrow> None
      | Some False \<Rightarrow> Some False
      | Some True \<Rightarrow> eval_condition i d)"
| "eval_condition i (cond_or c d) =
     (case eval_condition i c of
        None \<Rightarrow> None
      | Some True \<Rightarrow> Some True
      | Some False \<Rightarrow> eval_condition i d)"

text \<open>
  The state a branch point goes to; \<open>None\<close> when a rule cannot be evaluated or when no
  rule matches and there is no \<^verbatim>\<open>otherwise\<close>.
\<close>

fun choice_next :: "json \<Rightarrow> (condition \<times> state) list \<Rightarrow> state option \<Rightarrow> state option" where
  "choice_next i [] other = other"
| "choice_next i ((c, t) # rules) other =
     (case eval_condition i c of
        None \<Rightarrow> None
      | Some True \<Rightarrow> Some t
      | Some False \<Rightarrow> choice_next i rules other)"

text \<open>
  The body of a message. A plain string of the source is sent as it is, and so is the
  value a \<^verbatim>\<open>JsonPath.stringAt\<close> selects. A \<^verbatim>\<open>TaskInput.fromJsonPathAt\<close> placed inside
  \<^verbatim>\<open>TaskInput.fromObject\<close> is itself an object with the fields \<^verbatim>\<open>type\<close> (1 for an object
  input) and \<^verbatim>\<open>value\<close>, and appears in the body as that object, with the selected value
  under \<^verbatim>\<open>value\<close>. A path that selects nothing cannot be rendered (\<open>None\<close>): the state
  fails and no message is sent. The task token is minted by the service and is opaque
  here.
\<close>

fun render :: "json \<Rightarrow> task_input \<Rightarrow> json option" where
  "render c (literal s) = Some (JStr s)"
| "render c (fromJsonPathAt p) =
     (case get_path p c of
        None \<Rightarrow> None
      | Some v \<Rightarrow> Some (JObj [(''type'', JNum 1), (''value'', v)]))"
| "render c (stringAt p) = get_path p c"
| "render c taskToken = Some (JStr ''$$.Task.Token'')"

fun render_fields :: "json \<Rightarrow> (string \<times> task_input) list \<Rightarrow> (string \<times> json) list option" where
  "render_fields c [] = Some []"
| "render_fields c ((k, ti) # fields) =
     (case render c ti of
        None \<Rightarrow> None
      | Some v \<Rightarrow>
          (case render_fields c fields of None \<Rightarrow> None | Some kvs \<Rightarrow> Some ((k, v) # kvs)))"

definition render_body :: "json \<Rightarrow> (string \<times> task_input) list \<Rightarrow> json option" where
  "render_body c body = map_option JObj (render_fields c body)"

text \<open>
  What the outside world answers to a task: a Lambda function's invocation result, the
  queue's reply to a request-response send, or the data an external reviewer returns with
  the task token. A run is driven by the list of these answers in the order the tasks are
  started; when the list is used up the run waits at the task it has just started.
\<close>

datatype response = TaskSucceeded json | TaskFailed

datatype outcome = Succeeded json | Failed state | Awaiting state

datatype transition = Goto state json "response list" | Stop outcome

text \<open>A visit: the state entered, its input, and the answer it received (tasks only).\<close>

type_synonym visit = "state \<times> json \<times> response option"

definition run_task :: "state \<Rightarrow> json \<Rightarrow> path \<Rightarrow> state option \<Rightarrow> response list \<Rightarrow> visit \<times> transition" where
  "run_task s c rp nxt rs =
     (case rs of
        [] \<Rightarrow> ((s, c, None), Stop (Awaiting s))
      | r # rs' \<Rightarrow>
          ((s, c, Some r),
           (case r of
              TaskFailed \<Rightarrow> Stop (Failed s)
            | TaskSucceeded v \<Rightarrow>
                (case set_path rp v c of
                   None \<Rightarrow> Stop (Failed s)
                 | Some c' \<Rightarrow>
                     (case nxt of None \<Rightarrow> Stop (Succeeded c') | Some s' \<Rightarrow> Goto s' c' rs')))))"

definition step :: "state \<Rightarrow> json \<Rightarrow> response list \<Rightarrow> visit \<times> transition" where
  "step s c rs =
     (case definition_of s of
        LambdaInvoke fn rp nxt \<Rightarrow> run_task s c rp nxt rs
      | SqsSendMessage q body ip nxt \<Rightarrow>
          (case render_body c body of
             None \<Rightarrow> ((s, c, None), Stop (Failed s))
           | Some m \<Rightarrow> run_task s c [] nxt rs)
      | Pass res rp nxt \<Rightarrow>
          ((s, c, None),
           (case set_path rp res c of
              None \<Rightarrow> Stop (Failed s)
            | Some c' \<Rightarrow>
                (case nxt of None \<Rightarrow> Stop (Succeeded c') | Some s' \<Rightarrow> Goto s' c' rs)))
      | Choice ip rules other \<Rightarrow>
          ((s, c, None),
           (case get_path ip c of
              None \<Rightarrow> Stop (Failed s)
            | Some i \<Rightarrow>
                (case choice_next i rules other of
                   None \<Rightarrow> Stop (Failed s)
                 | Some s' \<Rightarrow> Goto s' i rs))))"

text \<open>
  The number of states that can follow without a task in between; it decreases along
  every transition that uses up no answer.
\<close>

fun idle_depth :: "state \<Rightarrow> nat" where
  "idle_depth feedbackChoiceStateOne = 1"
| "idle_depth feedbackChoiceStateTwo = 2"
| "idle_depth feedbackChoiceStateThree = 2"
| "idle_depth executeQueryChoiceState = 1"
| "idle_depth autocorrectChoiceState = 2"
| "idle_depth configureCountState = 1"
| "idle_depth isCountReachedState = 1"
| "idle_depth _ = 0"

function run :: "state \<Rightarrow> json \<Rightarrow> response list \<Rightarrow> visit list \<times> outcome" where
  "run s c rs =
     (case step s c rs of
        (v, Stop out) \<Rightarrow> ([v], out)
      | (v, Goto s' c' rs') \<Rightarrow> (v # fst (run s' c' rs'), snd (run s' c' rs')))"
  by pat_completeness auto
termination
proof -
  have decreases:
    "length rs' < length rs \<or> (length rs' = length rs \<and> idle_depth s' < idle_depth s)"
    if "step s c rs = (v, Goto s' c' rs')" for s c rs v s' c' rs'
    using that
    by (cases s)
       (auto simp: step_def run_task_def
             split: list.splits response.splits option.splits bool.splits)
  show ?thesis
  proof (relation "measures [\<lambda>(s, c, rs). length rs, \<lambda>(s, c, rs). idle_depth s]")
    show "wf (measures [\<lambda>(s, c, rs). length rs, \<lambda>(s, c, rs). idle_depth s])"
      by simp
  next
    fix s c rs x1 x2 s' c' rs'
    assume "(x1, x2) = step s c rs" "x2 = Goto s' c' rs'"
    then have "step s c rs = (x1, Goto s' c' rs')" by simp
    from decreases [OF this]
    show "((s', c', rs'), (s, c, rs))
            \<in> measures [\<lambda>(s, c, rs). length rs, \<lambda>(s, c, rs). idle_depth s]"
      by auto
  next
    fix s c rs x1 x2 s' c' rs'
    assume "(x1, x2) = step s c rs" "x2 = Goto s' c' rs'"
    then have "step s c rs = (x1, Goto s' c' rs')" by simp
    from decreases [OF this]
    show "((s', c', rs'), (s, c, rs))
            \<in> measures [\<lambda>(s, c, rs). length rs, \<lambda>(s, c, rs). idle_depth s]"
      by auto
  qed
qed

declare run.simps [simp del]

text \<open>The visits of a run, in order, and how the run ends.\<close>

definition trace :: "state \<Rightarrow> json \<Rightarrow> response list \<Rightarrow> visit list" where
  "trace s c rs = fst (run s c rs)"

definition final :: "state \<Rightarrow> json \<Rightarrow> response list \<Rightarrow> outcome" where
  "final s c rs = snd (run s c rs)"


section \<open>What a run shows\<close>

fun lambda_of :: "state_def \<Rightarrow> lambda_function option" where
  "lambda_of (LambdaInvoke fn rp nxt) = Some fn"
| "lambda_of _ = None"

text \<open>The number of times a run starts a task that invokes the given function.\<close>

definition invocations :: "lambda_function \<Rightarrow> visit list \<Rightarrow> nat" where
  "invocations fn t = length (filter (\<lambda>v. lambda_of (definition_of (fst v)) = Some fn) t)"

text \<open>The answers the given function returned, in order.\<close>

definition replies :: "lambda_function \<Rightarrow> visit list \<Rightarrow> response list" where
  "replies fn t =
     List.map_filter
       (\<lambda>v. if lambda_of (definition_of (fst v)) = Some fn then snd (snd v) else None) t"

text \<open>
  The message a visit sends to the given queue: the rendered body when the state sends to
  that queue and its body can be rendered, none otherwise.
\<close>

fun message_of :: "sqs_queue \<Rightarrow> visit \<Rightarrow> json list" where
  "message_of q (s, c, r) =
     (case definition_of s of
        SqsSendMessage q' body ip nxt \<Rightarrow>
          (if q' = q then (case render_body c body of None \<Rightarrow> [] | Some m \<Rightarrow> [m]) else [])
      | _ \<Rightarrow> [])"

text \<open>The messages a run sends to the given queue, in order.\<close>

definition messages :: "sqs_queue \<Rightarrow> visit list \<Rightarrow> json list" where
  "messages q t = concat (map (message_of q) t)"

definition visited :: "state \<Rightarrow> visit list \<Rightarrow> bool" where
  "visited s t = (s \<in> fst ` set t)"

text \<open>The number of times a run enters the given state.\<close>

definition entries :: "state \<Rightarrow> visit list \<Rightarrow> nat" where
  "entries s t = length (filter (\<lambda>v. fst v = s) t)"

text \<open>
  A run that ends in the publishing state and sends to the output queue what that last
  visit sends, and nothing else.
\<close>

definition published_at_end :: "visit list \<Rightarrow> bool" where
  "published_at_end t =
     (fst (last t) = outputState \<and> messages outputQueue t = message_of outputQueue (last t))"

section \<open>The shape of the graph\<close>

fun targets :: "state_def \<Rightarrow> state list" where
  "targets (LambdaInvoke fn rp nxt) = (case nxt of None \<Rightarrow> [] | Some n \<Rightarrow> [n])"
| "targets (SqsSendMessage q body ip nxt) = (case nxt of None \<Rightarrow> [] | Some n \<Rightarrow> [n])"
| "targets (Pass res rp nxt) = (case nxt of None \<Rightarrow> [] | Some n \<Rightarrow> [n])"
| "targets (Choice ip rules other) =
     map snd rules @ (case other of None \<Rightarrow> [] | Some n \<Rightarrow> [n])"

definition successors :: "state \<Rightarrow> state list" where
  "successors s = targets (definition_of s)"

definition edges :: "(state \<times> state) set" where
  "edges = {(s, t). t \<in> set (successors s)}"

definition autocorrect_loop :: "state set" where
  "autocorrect_loop = {iteratorState, isCountReachedState, alternateQueryGeneratorState}"

text \<open>Reachability within a bounded number of edges, as a computation.\<close>

fun reach_in :: "nat \<Rightarrow> state \<Rightarrow> state \<Rightarrow> bool" where
  "reach_in 0 s t = (s = t)"
| "reach_in (Suc n) s t = (s = t \<or> list_ex (\<lambda>m. reach_in n m t) (successors s))"

text \<open>The conditions that compare one field with one literal for equality.\<close>

fun exact_match :: "condition \<Rightarrow> bool" where
  "exact_match (stringEquals p s) = True"
| "exact_match (booleanEquals p b) = True"
| "exact_match _ = False"

fun condition_paths :: "condition \<Rightarrow> path list" where
  "condition_paths (stringEquals p s) = [p]"
| "condition_paths (booleanEquals p b) = [p]"
| "condition_paths (numberEquals p n) = [p]"
| "condition_paths (numberLessThan p n) = [p]"
| "condition_paths (numberGreaterThan p n) = [p]"
| "condition_paths (isPresent p) = [p]"
| "condition_paths (cond_not c) = condition_paths c"
| "condition_paths (cond_and c d) = condition_paths c @ condition_paths d"
| "condition_paths (cond_or c d) = condition_paths c @ condition_paths d"

text \<open>
  A rank on the states that every edge outside the autocorrect loop decreases.
\<close>

fun level :: "state \<Rightarrow> nat" where
  "level reformulateQuestionState = 12"
| "level feedbackChoiceStateOne = 11"
| "level reformulatedQuestionFeedbackState = 10"
| "level queryGeneratorOneState = 9"
| "level queryGeneratorTwoState = 9"
| "level feedbackChoiceStateThree = 8"
| "level feedbackChoiceStateTwo = 8"
| "level generatedQueryFeedbackOneState = 7"
| "level generatedQueryFeedbackTwoState = 7"
| "level executeQueryChoiceState = 6"
| "level queryExecutorState = 5"
| "level autocorrectChoiceState = 4"
| "level configureCountState = 3"
| "level iteratorState = 2"
| "level isCountReachedState = 2"
| "level alternateQueryGeneratorState = 2"
| "level outputState = 1"

section \<open>The units of work behind the tasks\<close>

text \<open>The status a query execution reports first, and what an iteration reports.\<close>

fun first_status :: "response list \<Rightarrow> json option" where
  "first_status (TaskSucceeded v # rs) = get_path [''Payload'', ''status''] v"
| "first_status _ = None"

fun continue_of :: "response \<Rightarrow> bool option" where
  "continue_of (TaskSucceeded v) =
     (case get_path [''Payload'', ''continue''] v of Some (JBool b) \<Rightarrow> Some b | _ \<Rightarrow> None)"
| "continue_of TaskFailed = None"

text \<open>
  Scenario C: the first query execution reports \<open>QUERY_ERROR\<close>, and the Iterate unit
  reports \<open>continue = true\<close> once and then \<open>false\<close>.
\<close>

definition scenario_C :: "visit list \<Rightarrow> bool" where
  "scenario_C t =
     (first_status (replies queryExecutorFunction t) = Some (JStr ''QUERY_ERROR'')
      \<and> map continue_of (replies autocorrectQueryFunction t) = [Some True, Some False])"

text \<open>
  Invocations of GenerateQuery, of ExecuteQuery and of Iterate, and entries of the
  publishing state.
\<close>

definition tally :: "visit list \<Rightarrow> nat \<times> nat \<times> nat \<times> nat" where
  "tally t =
     (invocations queryGeneratorFunction t,
      invocations queryExecutorFunction t,
      invocations autocorrectQueryFunction t,
      entries outputState t)"

text \<open>
  Modelled from the spec: the Iterate unit, the handler of \<open>autocorrectQueryFunction\<close>
  (\<^verbatim>\<open>lambda/aws-text-to-sql/query_autocorrect\<close>), is not among the sources. Section 4.4:
  it increments \<open>index\<close> by \<open>step\<close> and sets \<open>continue = (index < count)\<close>; section 3: the
  counter holds \<open>continue\<close>, \<open>count\<close>, \<open>index\<close> and \<open>step\<close>, is initialised at loop entry and
  then changed by each Iterate call. The counter the unit reads is therefore the one the
  previous Iterate call returned (under \<^verbatim>\<open>$.iterator.Payload\<close>) or, at the first call, the
  one \<^verbatim>\<open>configure_count\<close> wrote (under \<^verbatim>\<open>$.iterator\<close>).
\<close>

definition counter_of :: "json \<Rightarrow> json option" where
  "counter_of c =
     (case get_path [''iterator'', ''Payload''] c of
        Some k \<Rightarrow> Some k
      | None \<Rightarrow> get_path [''iterator''] c)"

definition iterate_unit :: "json \<Rightarrow> json option" where
  "iterate_unit c =
     (case counter_of c of
        None \<Rightarrow> None
      | Some k \<Rightarrow>
         (case (field ''index'' k, field ''step'' k, field ''count'' k) of
            (Some (JNum i), Some (JNum st), Some (JNum n)) \<Rightarrow>
               Some (JObj [(''index'', JNum (i + st)), (''step'', JNum st), (''count'', JNum n),
                           (''continue'', JBool (i + st < n))])
          | _ \<Rightarrow> None))"

text \<open>
  A run in which the Iterate unit is the one just described: every answer to the
  \<open>iteratorState\<close> task carries, as its payload, what the unit computes from the task's
  input, and the task fails where the unit finds no counter.
\<close>

fun iterate_conforms :: "visit \<Rightarrow> bool" where
  "iterate_conforms (s, c, r) =
     (if s = iteratorState
      then (case r of
              None \<Rightarrow> True
            | Some TaskFailed \<Rightarrow> iterate_unit c = None
            | Some (TaskSucceeded v) \<Rightarrow>
                iterate_unit c \<noteq> None \<and> get_path [''Payload''] v = iterate_unit c)
      else True)"

definition conforms :: "visit list \<Rightarrow> bool" where
  "conforms t = list_all iterate_conforms t"

text \<open>The part of a run from the entry of the autocorrect loop on.\<close>

definition loop_part :: "visit list \<Rightarrow> visit list" where
  "loop_part t = dropWhile (\<lambda>v. fst v \<noteq> configureCountState) t"

definition loop_states :: "state list" where
  "loop_states =
     [configureCountState,
      iteratorState, isCountReachedState, alternateQueryGeneratorState,
      iteratorState, isCountReachedState, alternateQueryGeneratorState,
      iteratorState, isCountReachedState, outputState]"

text \<open>The counter after \<open>i\<close> iterations, as the Iterate unit returns it.\<close>

definition counter :: "int \<Rightarrow> json" where
  "counter i = JObj [(''index'', JNum i), (''step'', JNum 1), (''count'', JNum 3),
                     (''continue'', JBool (i < 3))]"

fun index_within_count :: "json \<Rightarrow> bool" where
  "index_within_count c =
     (case (get_path [''iterator'', ''Payload'', ''index''] c,
            get_path [''iterator'', ''Payload'', ''count''] c) of
        (Some (JNum i), Some (JNum n)) \<Rightarrow> i \<le> n
      | _ \<Rightarrow> True)"

text \<open>
  A stretch of a run that follows \<open>loop_states\<close> from position \<open>n\<close> on and keeps the index
  within the count.
\<close>

definition bounded :: "nat \<Rightarrow> visit list \<Rightarrow> bool" where
  "bounded n t =
     (map fst t = take (length t) (drop n loop_states)
      \<and> list_all (\<lambda>v. index_within_count (fst (snd v))) t)"

section \<open>The construct\<close>

text \<open>
  The constructor of \<open>TextToSql\<close> up to the workflow. Objects of the infrastructure
  library are identified by a name; an optional property is an \<open>option\<close>, and a supplied
  object is truthy.
\<close>

datatype DatabaseType = AURORA | RDS

datatype DbName = MYSQL | POSTGRESQL

type_synonym ref = string

record TextToSqlProps =
  vpcProps :: "ref option"
  existingVpc :: "ref option"
  existingSubnetGroup :: "ref option"
  existingLambdaSecurityGroup :: "ref option"
  existingDBSecurityGroup :: "ref option"
  stage :: "string option"
  observability :: "bool option"
  dbName :: DbName
  databaseType :: "DatabaseType option"
  existingAuroraDbCluster :: "ref option"
  databaseClusterProps :: "ref option"
  databaseInstanceProps :: "ref option"
  dbPort :: "int option"
  existingRdsDbInstance :: "ref option"
  customQueryConfigurerLambdaProps :: "ref option"
  customQueryGeneratorLambdaProps :: "ref option"
  customFeedbackLambdaProps :: "ref option"
  customQueryExecutorLambdaProps :: "ref option"
  metadataSource :: string
  configAssetsBucketProps :: "ref option"
  existingconfigAssetsBucketObj :: "ref option"
  existingKnowledgeBaseId :: "string option"

datatype error = Error string | TypeError string

datatype db_engine = mysql | auroraMysql

datatype db_source = FromProps ref | Default db_engine int

text \<open>A resource the constructor creates, with its construct id.\<close>

datatype resource =
    Vpc string
  | SubnetGroup string
  | SecurityGroup string
  | LogGroup string
  | Role string
  | FlowLog string
  | Secret string
  | DatabaseCluster string db_source
  | DatabaseInstance string db_source
  | Bucket string
  | DockerLambdaFunction string
  | Queue string
  | EventbridgeToStepfunctions string

datatype obj = Existing ref | New resource

text \<open>
  The fields of the instance under construction, unassigned at first, and the resources
  created so far, in order. A throw carries the resources that exist at that moment.
\<close>

record TextToSql =
  this_stage :: string
  vpc :: "obj option"
  subnetGroup :: "obj option"
  lambdaSecurityGroup :: "obj option"
  dbSecurityGroup :: "obj option"
  configAssetBucket :: "obj option"
  databaseCluster :: "obj option"
  dbInstance :: "obj option"
  secret :: "obj option"
  resources :: "resource list"

type_synonym 'a result = "(error \<times> resource list) + 'a"

definition create :: "resource \<Rightarrow> TextToSql \<Rightarrow> TextToSql" where
  "create r this = this\<lparr>resources := resources this @ [r]\<rparr>"

definition validateDbProps :: "TextToSqlProps \<Rightarrow> error + unit" where
  "validateDbProps props =
     (if existingAuroraDbCluster props \<noteq> None \<and> databaseClusterProps props \<noteq> None
      then Inl (Error ''Only one of existingAuroraDbCluster or databaseClusterProps can be set at a time.'')
      else if databaseInstanceProps props \<noteq> None \<and> existingRdsDbInstance props \<noteq> None
      then Inl (Error ''Only one of databaseInstanceProps or existingRdsDbInstance can be set at a time.'')
      else if existingAuroraDbCluster props \<noteq> None \<and> existingRdsDbInstance props \<noteq> None
      then Inl (Error ''Only one of existingAuroraDbCluster or existingRdsDbInstance can be set at a time.'')
      else Inr ())"

text \<open>
  The instance after \<^verbatim>\<open>super(scope, id)\<close> and the two calls into the base class, which
  is not among the sources: no field of this class is assigned and nothing is created yet.
  The stage suffix is the \<open>stage\<close> property, \<^verbatim>\<open>_dev\<close> by default as its documentation says.
\<close>

definition initial :: "TextToSqlProps \<Rightarrow> TextToSql" where
  "initial props =
     \<lparr>this_stage = (case stage props of Some s \<Rightarrow> s | None \<Rightarrow> ''_dev''),
      vpc = None, subnetGroup = None, lambdaSecurityGroup = None, dbSecurityGroup = None,
      configAssetBucket = None, databaseCluster = None, dbInstance = None, secret = None,
      resources = []\<rparr>"

definition network :: "TextToSqlProps \<Rightarrow> TextToSql \<Rightarrow> TextToSql" where
  "network props this =
     (case (existingVpc props, existingSubnetGroup props) of
        (Some v, Some g) \<Rightarrow> this\<lparr>vpc := Some (Existing v), subnetGroup := Some (Existing g)\<rparr>
      | _ \<Rightarrow>
         create (SubnetGroup ''SubnetGroup'')
           (create (Vpc ''Vpc'') this)
             \<lparr>vpc := Some (New (Vpc ''Vpc'')),
              subnetGroup := Some (New (SubnetGroup ''SubnetGroup''))\<rparr>)"

definition port_of :: "TextToSqlProps \<Rightarrow> int" where
  "port_of props = (case dbPort props of Some p \<Rightarrow> (if p = 0 then 3306 else p) | None \<Rightarrow> 3306)"

definition security_groups :: "TextToSqlProps \<Rightarrow> TextToSql \<Rightarrow> TextToSql" where
  "security_groups props this =
     (let this1 =
            (case existingLambdaSecurityGroup props of
               Some g \<Rightarrow> this\<lparr>lambdaSecurityGroup := Some (Existing g)\<rparr>
             | None \<Rightarrow>
                 (create (SecurityGroup ''lambdaSecurityGroup'') this)
                   \<lparr>lambdaSecurityGroup := Some (New (SecurityGroup ''lambdaSecurityGroup''))\<rparr>)
      in (case existingDBSecurityGroup props of
            Some g \<Rightarrow> this1\<lparr>dbSecurityGroup := Some (Existing g)\<rparr>
          | None \<Rightarrow>
              (create (SecurityGroup ''DBSecurityGroup'') this1)
                \<lparr>dbSecurityGroup := Some (New (SecurityGroup ''DBSecurityGroup''))\<rparr>))"

definition flow_log :: "TextToSql \<Rightarrow> TextToSql" where
  "flow_log this =
     create (FlowLog ''FlowLog'')
       (create (Role ''textToSqlConstructRole'')
          (create (LogGroup ''textToSqlConstructVPCGroup'') this))"

definition createSecret :: "TextToSql \<Rightarrow> resource" where
  "createSecret this = Secret (''AuroraSecret'' @ this_stage this)"

definition createRdsInstance :: "TextToSqlProps \<Rightarrow> int \<Rightarrow> error + resource" where
  "createRdsInstance props port =
     (case dbName props of
        MYSQL \<Rightarrow> Inr (DatabaseInstance ''MysqlRdsInstance'' (Default mysql port))
      | _ \<Rightarrow> Inl (Error ''Invalid database name''))"

definition createAuroraCluster :: "TextToSqlProps \<Rightarrow> int \<Rightarrow> error + resource" where
  "createAuroraCluster props port =
     (case dbName props of
        MYSQL \<Rightarrow> Inr (DatabaseCluster ''AuroraCluster'' (Default auroraMysql port))
      | _ \<Rightarrow> Inl (Error ''Invalid database name''))"

text \<open>The block \<^verbatim>\<open>// assign existing db or db props\<close> of the constructor.\<close>

definition assign_db :: "TextToSqlProps \<Rightarrow> int \<Rightarrow> TextToSql \<Rightarrow> TextToSql result" where
  "assign_db props port this =
     (case existingAuroraDbCluster props of
        Some cl \<Rightarrow> Inr (this\<lparr>databaseCluster := Some (Existing cl)\<rparr>)
      | None \<Rightarrow>
     (case databaseClusterProps props of
        Some cp \<Rightarrow>
          (let r = DatabaseCluster (''AuroraCluster'' @ this_stage this) (FromProps cp)
           in Inr ((create r this)\<lparr>databaseCluster := Some (New r)\<rparr>))
      | None \<Rightarrow>
     (case existingRdsDbInstance props of
        Some i \<Rightarrow> Inr (this\<lparr>dbInstance := Some (Existing i)\<rparr>)
      | None \<Rightarrow>
     (case databaseInstanceProps props of
        Some ip \<Rightarrow>
          (let r = DatabaseInstance (''AuroraInstance'' @ this_stage this) (FromProps ip)
           in Inr ((create r this)\<lparr>dbInstance := Some (New r)\<rparr>))
      | None \<Rightarrow>
          (let this1 = (create (createSecret this) this)\<lparr>secret := Some (New (createSecret this))\<rparr>
           in if databaseType props = Some RDS
              then (case createRdsInstance props port of
                      Inl e \<Rightarrow> Inl (e, resources this1)
                    | Inr r \<Rightarrow> Inr ((create r this1)\<lparr>dbInstance := Some (New r)\<rparr>))
              else (case createAuroraCluster props port of
                      Inl e \<Rightarrow> Inl (e, resources this1)
                    | Inr r \<Rightarrow> Inr ((create r this1)\<lparr>databaseCluster := Some (New r)\<rparr>)))))))"

definition config_bucket :: "TextToSqlProps \<Rightarrow> TextToSql \<Rightarrow> TextToSql" where
  "config_bucket props this =
     (case existingconfigAssetsBucketObj props of
        Some b \<Rightarrow> this\<lparr>configAssetBucket := Some (Existing b)\<rparr>
      | None \<Rightarrow>
          (create (Bucket ''configBucket'') this)
            \<lparr>configAssetBucket := Some (New (Bucket ''configBucket''))\<rparr>)"

text \<open>
  The functions, the queues and the workflow. The properties of the query generator and
  of the query executor read \<^verbatim>\<open>this.secret.secretArn\<close>: reading a property of an
  unassigned field throws a \<open>TypeError\<close>.
\<close>

definition functions_and_workflow :: "TextToSql \<Rightarrow> TextToSql result" where
  "functions_and_workflow this =
     (let this1 =
            create (DockerLambdaFunction (''reformulateQuestionFunction'' @ this_stage this))
              (create (Role ''queryConfigFunctionRole'') this)
      in (case secret this1 of
            None \<Rightarrow> Inl (TypeError ''secretArn'', resources this1)
          | Some sec \<Rightarrow>
              Inr (create (EventbridgeToStepfunctions ''test-eventbridge-stepfunctions-stack'')
                  (create (Queue ''outputQueue'')
                  (create (Queue ''userFeedbackQueue'')
                  (create (DockerLambdaFunction (''autocorrectQueryFunction'' @ this_stage this))
                  (create (DockerLambdaFunction (''queryExecutorFunctionName'' @ this_stage this))
                  (create (DockerLambdaFunction (''queryGeneratorFunction'' @ this_stage this))
                     this1))))))))"

definition constructor :: "TextToSqlProps \<Rightarrow> TextToSql result" where
  "constructor props =
     (case validateDbProps props of
        Inl e \<Rightarrow> Inl (e, [])
      | Inr u \<Rightarrow>
          (case assign_db props (port_of props)
                  (flow_log (security_groups props (network props (initial props)))) of
             Inl e \<Rightarrow> Inl e
           | Inr this \<Rightarrow> functions_and_workflow (config_bucket props this)))"

text \<open>The pairings of properties that exclude each other.\<close>

definition violates_pairing :: "TextToSqlProps \<Rightarrow> bool" where
  "violates_pairing props =
     ((existingAuroraDbCluster props \<noteq> None \<and> databaseClusterProps props \<noteq> None)
      \<or> (existingRdsDbInstance props \<noteq> None \<and> databaseInstanceProps props \<noteq> None)
      \<or> (existingAuroraDbCluster props \<noteq> None \<and> existingRdsDbInstance props \<noteq> None))"

section \<open>Fields and sample inputs\<close>

text \<open>
  The strategy field as \<open>feedbackChoiceStateOne\<close> reads it: the condition names
  \<^verbatim>\<open>'$.semantic_layer_strategy'\<close> and the state's input path is
  \<^verbatim>\<open>'$.queryConfig.Payload'\<close>, the document the Reformulate task has just returned, which
  is the execution context from this state on.
\<close>

definition semantic_layer_strategy :: "json \<Rightarrow> json option" where
  "semantic_layer_strategy c =
     get_path ([''queryConfig'', ''Payload''] @ [''semantic_layer_strategy'']) c"

text \<open>Answers of the units, used to exercise the workflow on concrete runs.\<close>

definition reformulated :: "string \<Rightarrow> response" where
  "reformulated strategy =
     TaskSucceeded (JObj [(''Payload'',
       JObj [(''user_question'', JStr ''q''),
             (''reformulated_user_question'', JStr ''r''),
             (''question_unique_id'', JStr ''7''),
             (''semantic_layer_strategy'', JStr strategy)])])"

definition generated :: "string \<Rightarrow> string \<Rightarrow> response" where
  "generated validation execution =
     TaskSucceeded (JObj [(''Payload'',
       JObj [(''validated_sql_query'', JStr ''SELECT 1''),
             (''sql_validation_strategy'', JStr validation),
             (''execute_sql_strategy'', JStr execution)])])"

definition executed :: "string \<Rightarrow> response" where
  "executed status =
     TaskSucceeded (JObj [(''Payload'',
       JObj [(''status'', JStr status), (''result'', JStr ''42'')])])"

definition iterated :: "int \<Rightarrow> bool \<Rightarrow> response" where
  "iterated i b =
     TaskSucceeded (JObj [(''Payload'',
       JObj [(''index'', JNum i), (''step'', JNum 1), (''count'', JNum 3),
             (''continue'', JBool b)])])"

definition executed_without_result :: "string \<Rightarrow> response" where
  "executed_without_result status =
     TaskSucceeded (JObj [(''Payload'', JObj [(''status'', JStr status)])])"

definition sent :: response where
  "sent = TaskSucceeded (JObj [(''MessageId'', JStr ''1'')])"

text \<open>
  A run in which the first execution fails and the Iterate unit says \<open>continue\<close> once, and
  a run in which the Iterate unit counts as section 4.4 describes until it says stop.
\<close>

definition scenario_C_answers :: "response list" where
  "scenario_C_answers =
     [reformulated ''automatic'', generated ''automatic'' ''enabled'',
      executed ''QUERY_ERROR'', iterated 1 True, generated ''automatic'' ''enabled'',
      iterated 2 False, sent]"

definition resultless_answers :: "response list" where
  "resultless_answers =
     [reformulated ''automatic'', generated ''automatic'' ''enabled'',
      executed_without_result ''QUERY_ERROR'', iterated 1 True,
      generated ''automatic'' ''enabled'', iterated 2 False, sent]"

definition disabled_answers :: "response list" where
  "disabled_answers =
     [reformulated ''automatic'', generated ''automatic'' ''disabled'', sent]"

definition exhausting_answers :: "response list" where
  "exhausting_answers =
     [reformulated ''automatic'', generated ''automatic'' ''enabled'',
      executed ''QUERY_ERROR'', iterated 1 True, generated ''automatic'' ''enabled'',
      iterated 2 True, generated ''automatic'' ''enabled'', iterated 3 False, sent]"

text \<open>Properties that supply only what is required.\<close>

definition required_props :: TextToSqlProps where
  "required_props =
     \<lparr>vpcProps = None, existingVpc = None, existingSubnetGroup = None,
      existingLambdaSecurityGroup = None, existingDBSecurityGroup = None,
      stage = None, observability = None, dbName = MYSQL, databaseType = None,
      existingAuroraDbCluster = None, databaseClusterProps = None,
      databaseInstanceProps = None, dbPort = None, existingRdsDbInstance = None,
      customQueryConfigurerLambdaProps = None, customQueryGeneratorLambdaProps = None,
      customFeedbackLambdaProps = None, customQueryExecutorLambdaProps = None,
      metadataSource = ''config_file'', configAssetsBucketProps = None,
      existingconfigAssetsBucketObj = None, existingKnowledgeBaseId = None\<rparr>"

section \<open>Basic facts\<close>

lemma set_path_single:
  "set_path [k] v c = (case c of JObj kvs \<Rightarrow> Some (JObj (AList.update k v kvs)) | _ \<Rightarrow> None)"
  by (cases c) simp_all

lemma get_path_set_path_same:
  assumes "set_path [k] v c = Some c'"
  shows "get_path (k # p) c' = get_path p v"
  using assms by (cases c) (auto simp: update_conv')

lemma get_path_set_path_other:
  assumes "set_path [k] v c = Some c'" and "k' \<noteq> k"
  shows "get_path (k' # p) c' = get_path (k' # p) c"
  using assms by (cases c) (auto simp: update_conv')

lemma trace_unfold:
  "trace s c rs =
     (case step s c rs of
        (v, Stop out) \<Rightarrow> [v]
      | (v, Goto s' c' rs') \<Rightarrow> v # trace s' c' rs')"
  by (simp add: trace_def run.simps [of s c rs] split: prod.splits transition.splits)

lemma final_unfold:
  "final s c rs =
     (case step s c rs of
        (v, Stop out) \<Rightarrow> out
      | (v, Goto s' c' rs') \<Rightarrow> final s' c' rs')"
  by (simp add: final_def run.simps [of s c rs] split: prod.splits transition.splits)

lemma trace_task_state:
  assumes "definition_of s = LambdaInvoke fn rp (Some n)"
  shows "trace s c rs =
     (case rs of
        [] \<Rightarrow> [(s, c, None)]
      | r # rs' \<Rightarrow>
         (case r of
            TaskFailed \<Rightarrow> [(s, c, Some r)]
          | TaskSucceeded v \<Rightarrow>
             (case set_path rp v c of
                None \<Rightarrow> [(s, c, Some r)]
              | Some c' \<Rightarrow> (s, c, Some r) # trace n c' rs')))"
  using assms
  by (simp add: trace_unfold [of s] step_def run_task_def
           split: list.splits response.splits option.splits)

lemma trace_gate_state:
  assumes "definition_of s = SqsSendMessage q body ip (Some n)"
  shows "trace s c rs =
     (case render_body c body of
        None \<Rightarrow> [(s, c, None)]
      | Some m \<Rightarrow>
         (case rs of
            [] \<Rightarrow> [(s, c, None)]
          | r # rs' \<Rightarrow>
             (case r of
                TaskFailed \<Rightarrow> [(s, c, Some r)]
              | TaskSucceeded v \<Rightarrow> (s, c, Some r) # trace n v rs')))"
  using assms
  by (simp add: trace_unfold [of s] step_def run_task_def
           split: list.splits response.splits option.splits)

lemma trace_final_state:
  assumes "definition_of s = SqsSendMessage q body ip None"
  shows "trace s c rs =
     [(s, c, case render_body c body of
               None \<Rightarrow> None
             | Some m \<Rightarrow> (case rs of [] \<Rightarrow> None | r # rs' \<Rightarrow> Some r))]"
  using assms
  by (simp add: trace_unfold [of s] step_def run_task_def
           split: list.splits response.splits option.splits)

lemma trace_pass_state:
  assumes "definition_of s = Pass res rp (Some n)"
  shows "trace s c rs =
     (case set_path rp res c of
        None \<Rightarrow> [(s, c, None)]
      | Some c' \<Rightarrow> (s, c, None) # trace n c' rs)"
  using assms
  by (simp add: trace_unfold [of s] step_def split: option.splits)

lemma trace_choice_state:
  assumes "definition_of s = Choice ip [(cnd, a)] (Some b)"
  shows "trace s c rs =
     (case get_path ip c of
        None \<Rightarrow> [(s, c, None)]
      | Some i \<Rightarrow>
         (case eval_condition i cnd of
            None \<Rightarrow> [(s, c, None)]
          | Some m \<Rightarrow> (s, c, None) # trace (if m then a else b) i rs))"
  using assms
  by (simp add: trace_unfold [of s] step_def split: option.splits bool.splits)

lemmas trace_reformulateQuestionState = trace_task_state [OF definition_of.simps(1)]
lemmas trace_feedbackChoiceStateOne = trace_choice_state [OF definition_of.simps(2)]
lemmas trace_reformulatedQuestionFeedbackState = trace_gate_state [OF definition_of.simps(3)]
lemmas trace_queryGeneratorOneState = trace_task_state [OF definition_of.simps(4)]
lemmas trace_feedbackChoiceStateThree = trace_choice_state [OF definition_of.simps(5)]
lemmas trace_generatedQueryFeedbackOneState = trace_gate_state [OF definition_of.simps(6)]
lemmas trace_queryGeneratorTwoState = trace_task_state [OF definition_of.simps(7)]
lemmas trace_feedbackChoiceStateTwo = trace_choice_state [OF definition_of.simps(8)]
lemmas trace_generatedQueryFeedbackTwoState = trace_gate_state [OF definition_of.simps(9)]
lemmas trace_executeQueryChoiceState = trace_choice_state [OF definition_of.simps(10)]
lemmas trace_queryExecutorState = trace_task_state [OF definition_of.simps(11)]
lemmas trace_autocorrectChoiceState = trace_choice_state [OF definition_of.simps(12)]
lemmas trace_configureCountState = trace_pass_state [OF definition_of.simps(13)]
lemmas trace_iteratorState = trace_task_state [OF definition_of.simps(14)]
lemmas trace_isCountReachedState = trace_choice_state [OF definition_of.simps(15)]
lemmas trace_alternateQueryGeneratorState = trace_task_state [OF definition_of.simps(16)]
lemmas trace_outputState = trace_final_state [OF definition_of.simps(17)]

lemmas trace_at =
  trace_reformulateQuestionState trace_feedbackChoiceStateOne
  trace_reformulatedQuestionFeedbackState trace_queryGeneratorOneState
  trace_feedbackChoiceStateThree trace_generatedQueryFeedbackOneState
  trace_queryGeneratorTwoState trace_feedbackChoiceStateTwo
  trace_generatedQueryFeedbackTwoState trace_executeQueryChoiceState
  trace_queryExecutorState trace_autocorrectChoiceState trace_configureCountState
  trace_iteratorState trace_isCountReachedState trace_alternateQueryGeneratorState
  trace_outputState

lemma final_task_state:
  assumes "definition_of s = LambdaInvoke fn rp (Some n)"
  shows "final s c rs =
     (case rs of
        [] \<Rightarrow> Awaiting s
      | r # rs' \<Rightarrow>
         (case r of
            TaskFailed \<Rightarrow> Failed s
          | TaskSucceeded v \<Rightarrow>
             (case set_path rp v c of None \<Rightarrow> Failed s | Some c' \<Rightarrow> final n c' rs')))"
  using assms
  by (simp add: final_unfold [of s] step_def run_task_def
           split: list.splits response.splits option.splits)

lemma final_gate_state:
  assumes "definition_of s = SqsSendMessage q body ip (Some n)"
  shows "final s c rs =
     (case render_body c body of
        None \<Rightarrow> Failed s
      | Some m \<Rightarrow>
         (case rs of
            [] \<Rightarrow> Awaiting s
          | r # rs' \<Rightarrow> (case r of TaskFailed \<Rightarrow> Failed s | TaskSucceeded v \<Rightarrow> final n v rs')))"
  using assms
  by (simp add: final_unfold [of s] step_def run_task_def
           split: list.splits response.splits option.splits)

lemma final_final_state:
  assumes "definition_of s = SqsSendMessage q body ip None"
  shows "final s c rs =
     (case render_body c body of
        None \<Rightarrow> Failed s
      | Some m \<Rightarrow>
         (case rs of
            [] \<Rightarrow> Awaiting s
          | r # rs' \<Rightarrow> (case r of TaskFailed \<Rightarrow> Failed s | TaskSucceeded v \<Rightarrow> Succeeded v)))"
  using assms
  by (simp add: final_unfold [of s] step_def run_task_def
           split: list.splits response.splits option.splits)

lemma final_pass_state:
  assumes "definition_of s = Pass res rp (Some n)"
  shows "final s c rs =
     (case set_path rp res c of None \<Rightarrow> Failed s | Some c' \<Rightarrow> final n c' rs)"
  using assms
  by (simp add: final_unfold [of s] step_def split: option.splits)

lemma final_choice_state:
  assumes "definition_of s = Choice ip [(cnd, a)] (Some b)"
  shows "final s c rs =
     (case get_path ip c of
        None \<Rightarrow> Failed s
      | Some i \<Rightarrow>
         (case eval_condition i cnd of
            None \<Rightarrow> Failed s
          | Some m \<Rightarrow> final (if m then a else b) i rs))"
  using assms
  by (simp add: final_unfold [of s] step_def split: option.splits bool.splits)

lemmas final_at =
  final_task_state [OF definition_of.simps(1)]
  final_choice_state [OF definition_of.simps(2)]
  final_gate_state [OF definition_of.simps(3)]
  final_task_state [OF definition_of.simps(4)]
  final_choice_state [OF definition_of.simps(5)]
  final_gate_state [OF definition_of.simps(6)]
  final_task_state [OF definition_of.simps(7)]
  final_choice_state [OF definition_of.simps(8)]
  final_gate_state [OF definition_of.simps(9)]
  final_choice_state [OF definition_of.simps(10)]
  final_task_state [OF definition_of.simps(11)]
  final_choice_state [OF definition_of.simps(12)]
  final_pass_state [OF definition_of.simps(13)]
  final_task_state [OF definition_of.simps(14)]
  final_choice_state [OF definition_of.simps(15)]
  final_task_state [OF definition_of.simps(16)]
  final_final_state [OF definition_of.simps(17)]

lemma invocations_Nil [simp]: "invocations fn [] = 0"
  by (simp add: invocations_def)

lemma invocations_Cons [simp]:
  "invocations fn (v # t) =
     (if lambda_of (definition_of (fst v)) = Some fn then Suc (invocations fn t)
      else invocations fn t)"
  by (simp add: invocations_def)

lemma replies_Nil [simp]: "replies fn [] = []"
  by (simp add: replies_def map_filter_simps)

lemma replies_Cons [simp]:
  "replies fn (v # t) =
     (if lambda_of (definition_of (fst v)) = Some fn
      then (case snd (snd v) of None \<Rightarrow> replies fn t | Some r \<Rightarrow> r # replies fn t)
      else replies fn t)"
  by (simp add: replies_def map_filter_simps split: option.splits)

lemma messages_Nil [simp]: "messages q [] = []"
  by (simp add: messages_def)

lemma messages_Cons [simp]: "messages q (v # t) = message_of q v @ messages q t"
  by (simp add: messages_def)

lemma visited_Nil [simp]: "visited s [] = False"
  by (simp add: visited_def)

lemma visited_Cons [simp]: "visited s (v # t) = (fst v = s \<or> visited s t)"
  by (auto simp: visited_def)

section \<open>The graph\<close>

lemma reach_in_sound: "reach_in n s t \<Longrightarrow> (s, t) \<in> edges\<^sup>*"
proof (induction n arbitrary: s)
  case 0
  then show ?case by simp
next
  case (Suc n)
  show ?case
  proof (cases "s = t")
    case True
    then show ?thesis by simp
  next
    case False
    with Suc.prems obtain m where m: "m \<in> set (successors s)" "reach_in n m t"
      by (auto simp: list_ex_iff)
    from m(1) have "(s, m) \<in> edges" by (simp add: edges_def)
    moreover from Suc.IH [OF m(2)] have "(m, t) \<in> edges\<^sup>*" .
    ultimately show ?thesis by (rule converse_rtrancl_into_rtrancl)
  qed
qed


lemma edge_level:
  assumes "(s, t) \<in> edges"
  shows "level t < level s \<or> (s \<in> autocorrect_loop \<and> t \<in> autocorrect_loop)"
  using assms by (cases s) (auto simp: edges_def successors_def autocorrect_loop_def)

lemma loop_level: "s \<in> autocorrect_loop \<Longrightarrow> level s = 2"
  by (auto simp: autocorrect_loop_def)

lemma path_level:
  assumes "(s, t) \<in> edges\<^sup>+"
  shows "level t < level s \<or> (s \<in> autocorrect_loop \<and> t \<in> autocorrect_loop)"
  using assms
proof (induction rule: trancl_induct)
  case (base y)
  then show ?case by (rule edge_level)
next
  case (step y z)
  from edge_level [OF step.hyps(2)]
  consider "level z < level y" | "y \<in> autocorrect_loop" "z \<in> autocorrect_loop"
    by auto
  then show ?case
  proof cases
    case 1
    from step.IH show ?thesis
    proof
      assume "level y < level s"
      with 1 show ?thesis by simp
    next
      assume "s \<in> autocorrect_loop \<and> y \<in> autocorrect_loop"
      then have "level s = level y" by (simp add: loop_level)
      with 1 show ?thesis by simp
    qed
  next
    case 2
    from step.IH show ?thesis
    proof
      assume "level y < level s"
      moreover from 2 have "level y = level z" by (simp add: loop_level)
      ultimately show ?thesis by simp
    next
      assume "s \<in> autocorrect_loop \<and> y \<in> autocorrect_loop"
      with 2 show ?thesis by simp
    qed
  qed
qed

lemma loop_cycle:
  assumes "s \<in> autocorrect_loop"
  shows "(s, s) \<in> edges\<^sup>+"
proof -
  have a: "(iteratorState, isCountReachedState) \<in> edges"
    and b: "(isCountReachedState, alternateQueryGeneratorState) \<in> edges"
    and c: "(alternateQueryGeneratorState, iteratorState) \<in> edges"
    by (simp_all add: edges_def successors_def)
  have abc: "(iteratorState, iteratorState) \<in> edges\<^sup>+"
    using trancl_into_trancl [OF trancl_into_trancl [OF r_into_trancl [OF a] b] c] .
  have bca: "(isCountReachedState, isCountReachedState) \<in> edges\<^sup>+"
    using trancl_into_trancl [OF trancl_into_trancl [OF r_into_trancl [OF b] c] a] .
  have cab: "(alternateQueryGeneratorState, alternateQueryGeneratorState) \<in> edges\<^sup>+"
    using trancl_into_trancl [OF trancl_into_trancl [OF r_into_trancl [OF c] a] b] .
  from assms consider "s = iteratorState" | "s = isCountReachedState"
    | "s = alternateQueryGeneratorState"
    by (auto simp: autocorrect_loop_def)
  then show ?thesis
  proof cases
    case 1
    then show ?thesis using abc by simp
  next
    case 2
    then show ?thesis using bca by simp
  next
    case 3
    then show ?thesis using cab by simp
  qed
qed

lemma all_reached: "reach_in 10 startState s"
  by (cases s) (simp_all add: eval_nat_numeral successors_def startState_def)

lemma all_reach_output: "reach_in 9 s outputState"
  by (cases s) (simp_all add: eval_nat_numeral successors_def)

section \<open>Runs follow the graph\<close>

lemma step_visit: "fst (fst (step s c rs)) = s" "fst (snd (fst (step s c rs))) = c"
  by (cases "definition_of s"; auto simp: step_def run_task_def split: list.splits option.splits)+

lemma step_edge:
  assumes "step s c rs = (v, Goto s' c' rs')"
  shows "(s, s') \<in> edges"
  using assms
  by (cases s)
     (auto simp: step_def run_task_def edges_def successors_def
           split: list.splits response.splits option.splits bool.splits)

lemma trace_cases:
  obtains (stop) v out where "step s c rs = (v, Stop out)" "trace s c rs = [v]"
  | (goto) v s' c' rs' where "step s c rs = (v, Goto s' c' rs')"
      "trace s c rs = v # trace s' c' rs'"
proof (cases "step s c rs")
  case (Pair v tr)
  show ?thesis
  proof (cases tr)
    case (Goto s' c' rs')
    with Pair show ?thesis by (intro goto [of v s' c' rs']) (simp_all add: trace_unfold [of s c rs])
  next
    case (Stop out)
    with Pair show ?thesis by (intro stop [of v out]) (simp_all add: trace_unfold [of s c rs])
  qed
qed

lemma trace_visits:
  "v \<in> set (trace s c rs) \<Longrightarrow> (s, fst v) \<in> edges\<^sup>*"
proof (induction s c rs rule: run.induct)
  case (1 s c rs)
  show ?case
  proof (cases s c rs rule: trace_cases)
    case (stop v0 out)
    with "1.prems" have "v = v0" by simp
    moreover from stop(1) step_visit(1) [of s c rs] have "fst v0 = s" by simp
    ultimately show ?thesis by simp
  next
    case (goto v0 s' c' rs')
    from goto(1) step_visit(1) [of s c rs] have v0: "fst v0 = s" by simp
    from goto(1) have e: "(s, s') \<in> edges" by (rule step_edge)
    from "1.prems" goto(2) consider "v = v0" | "v \<in> set (trace s' c' rs')" by auto
    then show ?thesis
    proof cases
      case 1
      with v0 show ?thesis by simp
    next
      case 2
      have "(s', fst v) \<in> edges\<^sup>*"
        by (rule "1.IH" [OF goto(1) [symmetric] refl 2])
      with e show ?thesis
        by (rule converse_rtrancl_into_rtrancl)
    qed
  qed
qed

lemma trace_split:
  "v \<in> set (trace s c rs) \<Longrightarrow>
     \<exists>pre rs'. trace s c rs = pre @ trace (fst v) (fst (snd v)) rs'
        \<and> (\<forall>u \<in> set pre. (fst u, fst v) \<in> edges\<^sup>+)"
proof (induction s c rs rule: run.induct)
  case (1 s c rs)
  have here: "v = fst (step s c rs) \<Longrightarrow> ?case"
  proof -
    assume "v = fst (step s c rs)"
    with step_visit [of s c rs] have "fst v = s" "fst (snd v) = c" by simp_all
    then have "trace s c rs = [] @ trace (fst v) (fst (snd v)) rs" by simp
    then show ?case by (metis empty_iff list.set(1))
  qed
  show ?case
  proof (cases s c rs rule: trace_cases)
    case (stop v0 out)
    with "1.prems" have "v = fst (step s c rs)" by simp
    then show ?thesis by (rule here)
  next
    case (goto v0 s' c' rs')
    from goto(1) step_visit(1) [of s c rs] have v0: "fst v0 = s" by simp
    from goto(1) have e: "(s, s') \<in> edges" by (rule step_edge)
    from "1.prems" goto(2) consider "v = v0" | "v \<in> set (trace s' c' rs')" by auto
    then show ?thesis
    proof cases
      case 1
      with goto(1) have "v = fst (step s c rs)" by simp
      then show ?thesis by (rule here)
    next
      case 2
      from "1.IH" [OF goto(1) [symmetric] refl 2]
      obtain pre rs'' where pre: "trace s' c' rs' = pre @ trace (fst v) (fst (snd v)) rs''"
        and anc: "\<forall>u \<in> set pre. (fst u, fst v) \<in> edges\<^sup>+"
        by blast
      from e trace_visits [OF 2] have "(s, fst v) \<in> edges\<^sup>+"
        by (rule rtrancl_into_trancl2)
      with v0 anc have "\<forall>u \<in> set (v0 # pre). (fst u, fst v) \<in> edges\<^sup>+" by simp
      moreover from goto(2) pre
      have "trace s c rs = (v0 # pre) @ trace (fst v) (fst (snd v)) rs''" by simp
      ultimately show ?thesis by blast
    qed
  qed
qed

lemma reach_level:
  assumes "(s, t) \<in> edges\<^sup>*"
  shows "level t \<le> level s"
proof -
  from assms have "s = t \<or> (s, t) \<in> edges\<^sup>+" by (auto simp: rtrancl_eq_or_trancl)
  then show ?thesis
  proof
    assume "s = t" then show ?thesis by simp
  next
    assume "(s, t) \<in> edges\<^sup>+"
    from path_level [OF this] show ?thesis by (auto simp: loop_level)
  qed
qed

lemma visits_level:
  assumes "v \<in> set (trace s c rs)"
  shows "level (fst v) \<le> level s"
  using assms by (intro reach_level trace_visits)

lemma not_visited_above:
  assumes "level s < level s'"
  shows "\<not> visited s' (trace s c rs)"
proof
  assume "visited s' (trace s c rs)"
  then obtain v where "v \<in> set (trace s c rs)" "fst v = s'"
    by (auto simp: visited_def)
  with visits_level [of v s c rs] assms show False by simp
qed

lemma get_path_append:
  "get_path (p @ q) c = (case get_path p c of None \<Rightarrow> None | Some i \<Rightarrow> get_path q i)"
  by (induction p arbitrary: c) (auto split: option.splits)

lemma invocations_append [simp]:
  "invocations fn (t @ u) = invocations fn t + invocations fn u"
  by (simp add: invocations_def)

lemma messages_append [simp]: "messages q (t @ u) = messages q t @ messages q u"
  by (simp add: messages_def)

lemma invocations_none:
  assumes "\<forall>v \<in> set t. lambda_of (definition_of (fst v)) \<noteq> Some fn"
  shows "invocations fn t = 0"
  using assms by (induction t) auto

lemma messages_none:
  assumes "\<forall>v \<in> set t. message_of q v = []"
  shows "messages q t = []"
  using assms by (induction t) auto

lemma executor_only: "lambda_of (definition_of s) = Some queryExecutorFunction \<Longrightarrow> s = queryExecutorState"
  by (cases s) simp_all

lemma publisher_only: "message_of outputQueue v \<noteq> [] \<Longrightarrow> fst v = outputState"
  by (cases v, cases "fst v") (auto split: if_splits)

lemma before_level:
  assumes "(s, t) \<in> edges\<^sup>+" and "t \<notin> autocorrect_loop"
  shows "level t < level s"
  using path_level [OF assms(1)] assms(2) by auto

section \<open>Execution disabled\<close>

text \<open>
  A run that reaches the execute-gate with \<open>execute_sql_strategy\<close> equal to \<open>disabled\<close>
  never invokes the query executor and goes from the gate straight to the publishing
  state, which ends the run; what is published is what that state can render from the
  context at the gate, and nothing when \<open>queryStatus.Payload.result\<close> is absent there.
\<close>

lemma execution_disabled:
  assumes "v \<in> set (trace startState c0 rs)"
    and "fst v = executeQueryChoiceState"
    and "get_path [''queryConfig'', ''Payload'', ''execute_sql_strategy''] (fst (snd v))
           = Some (JStr ''disabled'')"
  shows "invocations queryExecutorFunction (trace startState c0 rs) = 0
    \<and> (\<exists>pre r. (trace startState c0 rs) = pre @ [v, (outputState, fst (snd v), r)])
    \<and> messages outputQueue (trace startState c0 rs) =
         (case render_body (fst (snd v)) publish_body of None \<Rightarrow> [] | Some m \<Rightarrow> [m])"
proof -
  obtain cg r0 where v: "v = (executeQueryChoiceState, cg, r0)"
    using assms(2) by (cases v) auto
  from trace_split [OF assms(1)] v obtain pre rs'
    where t: "(trace startState c0 rs) = pre @ (trace executeQueryChoiceState cg rs')"
      and anc: "\<forall>u \<in> set pre. (fst u, executeQueryChoiceState) \<in> edges\<^sup>+"
    by auto
  have above: "6 < level (fst u)" if "u \<in> set pre" for u
    using before_level [of "fst u" executeQueryChoiceState] anc that
    by (auto simp: autocorrect_loop_def)
  have no_exec: "invocations queryExecutorFunction pre = 0"
  proof (rule invocations_none, rule ballI, rule notI)
    fix u assume "u \<in> set pre" "lambda_of (definition_of (fst u)) = Some queryExecutorFunction"
    with above [of u] executor_only [of "fst u"] show False by simp
  qed
  have no_pub: "messages outputQueue pre = []"
  proof (rule messages_none, rule ballI, rule ccontr)
    fix u assume "u \<in> set pre" "message_of outputQueue u \<noteq> []"
    with above [of u] publisher_only [of u] show False by simp
  qed
  define r where "r = (case render_body cg publish_body of
                         None \<Rightarrow> None
                       | Some m \<Rightarrow> (case rs' of [] \<Rightarrow> None | x # xs \<Rightarrow> Some x))"
  have sub: "(trace executeQueryChoiceState cg rs')
      = [(executeQueryChoiceState, cg, None), (outputState, cg, r)]"
    using assms(3) v
    by (simp add: trace_executeQueryChoiceState trace_outputState r_def)
  have "v \<notin> set pre"
    using above [of v] v by auto
  with assms(1) t sub v have r0: "r0 = None"
    by auto
  show ?thesis
    using t sub no_exec no_pub v r0 by simp
qed

lemma nothing_published_without_result:
  assumes "v \<in> set (trace startState c0 rs)"
    and "fst v = executeQueryChoiceState"
    and "get_path [''queryConfig'', ''Payload'', ''execute_sql_strategy''] (fst (snd v))
           = Some (JStr ''disabled'')"
    and "get_path [''queryStatus'', ''Payload'', ''result''] (fst (snd v)) = None"
  shows "messages outputQueue (trace startState c0 rs) = []"
  using execution_disabled [OF assms(1-3)] assms(4)
  by (simp add: render_body_def publish_body_def)

section \<open>A failed execution followed by one more iteration\<close>

lemma trace_nonempty [simp]: "trace s c rs \<noteq> []"
  by (cases s c rs rule: trace_cases) simp_all

lemma entries_Nil [simp]: "entries s [] = 0"
  by (simp add: entries_def)

lemma entries_Cons [simp]:
  "entries s (v # t) = (if fst v = s then Suc (entries s t) else entries s t)"
  by (simp add: entries_def)

lemma entries_append [simp]: "entries s (t @ u) = entries s t + entries s u"
  by (simp add: entries_def)

lemma tally_Nil: "tally [] = (0, 0, 0, 0)"
  by (simp add: tally_def)

lemma tally_Cons:
  "tally (v # t) =
     (case tally t of (g, e, i, p) \<Rightarrow>
        (if lambda_of (definition_of (fst v)) = Some queryGeneratorFunction then Suc g else g,
         if lambda_of (definition_of (fst v)) = Some queryExecutorFunction then Suc e else e,
         if lambda_of (definition_of (fst v)) = Some autocorrectQueryFunction then Suc i else i,
         if fst v = outputState then Suc p else p))"
  by (simp add: tally_def)

lemma published_at_end_Cons:
  assumes "fst v \<noteq> outputState" and "t \<noteq> []"
  shows "published_at_end (v # t) = published_at_end t"
proof -
  have "message_of outputQueue v = []"
    using assms(1) by (cases v, cases "fst v") (auto split: if_splits)
  with assms(2) show ?thesis
    by (simp add: published_at_end_def)
qed

lemma published:
  "tally (trace outputState c rs) = (0, 0, 0, 1)"
  "published_at_end (trace outputState c rs)"
  "replies fn (trace outputState c rs) = []"
  by (simp_all add: trace_outputState tally_def published_at_end_def)

lemma closing_iteration:
  assumes "map continue_of (replies autocorrectQueryFunction (trace iteratorState (JObj kvs) rs))
             = [Some False]"
  shows "tally (trace iteratorState (JObj kvs) rs) = (0, 0, 1, 1)"
    and "published_at_end (trace iteratorState (JObj kvs) rs)"
    and "replies queryExecutorFunction (trace iteratorState (JObj kvs) rs) = []"
  using assms
  by (auto simp: trace_iteratorState trace_isCountReachedState update_conv'
        tally_Cons tally_Nil published published_at_end_Cons
      split: list.splits response.splits json.splits option.splits if_splits)

lemma regenerate:
  assumes "map continue_of
             (replies autocorrectQueryFunction (trace alternateQueryGeneratorState (JObj kvs) rs))
             = [Some False]"
  shows "tally (trace alternateQueryGeneratorState (JObj kvs) rs) = (1, 0, 1, 1)"
    and "published_at_end (trace alternateQueryGeneratorState (JObj kvs) rs)"
    and "replies queryExecutorFunction (trace alternateQueryGeneratorState (JObj kvs) rs) = []"
  using assms
  by (auto simp: trace_alternateQueryGeneratorState tally_Cons tally_Nil closing_iteration
        published_at_end_Cons
      split: list.splits response.splits)

lemma one_more_iteration:
  assumes "map continue_of (replies autocorrectQueryFunction (trace iteratorState (JObj kvs) rs))
             = [Some True, Some False]"
  shows "tally (trace iteratorState (JObj kvs) rs) = (1, 0, 2, 1)"
    and "published_at_end (trace iteratorState (JObj kvs) rs)"
    and "replies queryExecutorFunction (trace iteratorState (JObj kvs) rs) = []"
  using assms
  by (auto simp: trace_iteratorState trace_isCountReachedState update_conv'
        tally_Cons tally_Nil published regenerate published_at_end_Cons
      split: list.splits response.splits json.splits option.splits if_splits)

lemma loop_entry_C:
  assumes "map continue_of (replies autocorrectQueryFunction (trace configureCountState (JObj kvs) rs))
             = [Some True, Some False]"
  shows "tally (trace configureCountState (JObj kvs) rs) = (1, 0, 2, 1)"
    and "published_at_end (trace configureCountState (JObj kvs) rs)"
    and "replies queryExecutorFunction (trace configureCountState (JObj kvs) rs) = []"
  using assms
  by (auto simp: trace_configureCountState tally_Cons one_more_iteration published_at_end_Cons)

lemma execution:
  assumes "scenario_C (trace queryExecutorState c rs)"
  shows "tally (trace queryExecutorState c rs) = (1, 1, 2, 1)
         \<and> published_at_end (trace queryExecutorState c rs)"
  using assms
  by (auto simp: scenario_C_def trace_queryExecutorState trace_autocorrectChoiceState
        set_path_single update_conv' tally_Cons tally_Nil published loop_entry_C
        published_at_end_Cons
      split: list.splits response.splits json.splits option.splits if_splits)

lemma scenario_C_Cons:
  assumes "lambda_of (definition_of (fst v)) \<noteq> Some queryExecutorFunction"
    and "lambda_of (definition_of (fst v)) \<noteq> Some autocorrectQueryFunction"
  shows "scenario_C (v # t) = scenario_C t"
  using assms by (simp add: scenario_C_def)

lemma scenario_C_Nil: "\<not> scenario_C []"
  by (simp add: scenario_C_def)

lemma scenario_C_published: "\<not> scenario_C (trace outputState c rs)"
  by (simp add: scenario_C_def published)

lemma execute_gate_C:
  assumes "scenario_C (trace executeQueryChoiceState c rs)"
  shows "tally (trace executeQueryChoiceState c rs) = (1, 1, 2, 1)
         \<and> published_at_end (trace executeQueryChoiceState c rs)"
  using assms
  by (auto simp: trace_executeQueryChoiceState scenario_C_Cons scenario_C_Nil scenario_C_published
        tally_Cons execution published_at_end_Cons
      split: option.splits if_splits)

lemma query_feedback_C:
  assumes "scenario_C (trace s c rs)"
    and "s = generatedQueryFeedbackOneState \<or> s = generatedQueryFeedbackTwoState"
  shows "tally (trace s c rs) = (1, 1, 2, 1) \<and> published_at_end (trace s c rs)"
  using assms
  by (auto simp: trace_generatedQueryFeedbackOneState trace_generatedQueryFeedbackTwoState
        scenario_C_Cons scenario_C_Nil tally_Cons execute_gate_C published_at_end_Cons
      split: list.splits response.splits option.splits)

lemma query_choice_C:
  assumes "scenario_C (trace s c rs)"
    and "s = feedbackChoiceStateThree \<or> s = feedbackChoiceStateTwo"
  shows "tally (trace s c rs) = (1, 1, 2, 1) \<and> published_at_end (trace s c rs)"
  using assms
  by (auto simp: trace_feedbackChoiceStateThree trace_feedbackChoiceStateTwo
        scenario_C_Cons scenario_C_Nil tally_Cons execute_gate_C query_feedback_C
        published_at_end_Cons
      split: option.splits if_splits)

lemma generate_C:
  assumes "scenario_C (trace s c rs)"
    and "s = queryGeneratorOneState \<or> s = queryGeneratorTwoState"
  shows "tally (trace s c rs) = (2, 1, 2, 1) \<and> published_at_end (trace s c rs)"
  using assms
  by (auto simp: trace_queryGeneratorOneState trace_queryGeneratorTwoState
        scenario_C_Cons scenario_C_Nil tally_Cons query_choice_C published_at_end_Cons
      split: list.splits response.splits option.splits)

lemma question_feedback_C:
  assumes "scenario_C (trace reformulatedQuestionFeedbackState c rs)"
  shows "tally (trace reformulatedQuestionFeedbackState c rs) = (2, 1, 2, 1)
         \<and> published_at_end (trace reformulatedQuestionFeedbackState c rs)"
  using assms
  by (auto simp: trace_reformulatedQuestionFeedbackState
        scenario_C_Cons scenario_C_Nil tally_Cons generate_C published_at_end_Cons
      split: list.splits response.splits option.splits)

lemma question_choice_C:
  assumes "scenario_C (trace feedbackChoiceStateOne c rs)"
  shows "tally (trace feedbackChoiceStateOne c rs) = (2, 1, 2, 1)
         \<and> published_at_end (trace feedbackChoiceStateOne c rs)"
  using assms
  by (auto simp: trace_feedbackChoiceStateOne
        scenario_C_Cons scenario_C_Nil tally_Cons generate_C question_feedback_C
        published_at_end_Cons
      split: option.splits if_splits)

lemma start_C:
  assumes "scenario_C (trace startState c0 rs)"
  shows "tally (trace startState c0 rs) = (2, 1, 2, 1)
         \<and> published_at_end (trace startState c0 rs)"
  using assms
  by (auto simp: startState_def trace_reformulateQuestionState
        scenario_C_Cons scenario_C_Nil tally_Cons question_choice_C published_at_end_Cons
      split: list.splits response.splits option.splits)

section \<open>The loop under the Iterate unit\<close>

lemma bounded_Nil: "bounded n []"
  by (simp add: bounded_def)

lemma length_loop_states: "length loop_states = 10"
  by (simp add: loop_states_def)

lemma bounded_Cons:
  "bounded n (v # t) =
     (n < 10 \<and> fst v = loop_states ! n \<and> index_within_count (fst (snd v)) \<and> bounded (Suc n) t)"
proof (cases "n < 10")
  case True
  then have "drop n loop_states = loop_states ! n # drop (Suc n) loop_states"
    by (simp add: Cons_nth_drop_Suc length_loop_states)
  then show ?thesis using True by (auto simp: bounded_def)
next
  case False
  then have "drop n loop_states = []"
    by (simp add: length_loop_states)
  then show ?thesis using False by (simp add: bounded_def)
qed

lemma conforms_Nil: "conforms []"
  by (simp add: conforms_def)

lemma conforms_Cons: "conforms (v # t) = (iterate_conforms v \<and> conforms t)"
  by (simp add: conforms_def)

lemma third_iteration:
  assumes "conforms (trace iteratorState (JObj kvs) rs)"
    and "map_of kvs ''iterator'' = Some w" and "field ''Payload'' w = Some (counter 2)"
  shows "bounded 7 (trace iteratorState (JObj kvs) rs)"
  using assms
  by (auto simp: trace_iteratorState trace_isCountReachedState trace_outputState update_conv'
        conforms_Cons conforms_Nil bounded_Cons bounded_Nil loop_states_def
        iterate_unit_def counter_of_def counter_def
      split: list.splits response.splits option.splits json.splits if_splits)


lemma second_regeneration:
  assumes "conforms (trace alternateQueryGeneratorState (JObj kvs) rs)"
    and "map_of kvs ''iterator'' = Some w" and "field ''Payload'' w = Some (counter 2)"
  shows "bounded 6 (trace alternateQueryGeneratorState (JObj kvs) rs)"
  using assms
  by (auto simp: trace_alternateQueryGeneratorState update_conv'
        conforms_Cons conforms_Nil bounded_Cons bounded_Nil loop_states_def counter_def
        third_iteration
      split: list.splits response.splits)

lemma second_iteration:
  assumes "conforms (trace iteratorState (JObj kvs) rs)"
    and "map_of kvs ''iterator'' = Some w" and "field ''Payload'' w = Some (counter 1)"
  shows "bounded 4 (trace iteratorState (JObj kvs) rs)"
proof (cases rs)
  case Nil
  with assms show ?thesis
    by (simp add: trace_iteratorState bounded_Cons bounded_Nil loop_states_def counter_def)
next
  case (Cons r rs')
  show ?thesis
  proof (cases r)
    case TaskFailed
    with Cons assms show ?thesis
      by (simp add: trace_iteratorState bounded_Cons bounded_Nil loop_states_def counter_def)
  next
    case (TaskSucceeded v)
    let ?kvs = "AList.update ''iterator'' v kvs"
    from assms Cons TaskSucceeded have v: "field ''Payload'' v = Some (counter 2)"
      by (auto simp: trace_iteratorState conforms_Cons iterate_unit_def counter_of_def counter_def
            split: option.splits)
    have m: "map_of ?kvs ''iterator'' = Some v"
      by (simp add: update_conv')
    from assms(1) Cons TaskSucceeded
    have "conforms (trace alternateQueryGeneratorState (JObj ?kvs) rs')"
      using v
      by (simp add: trace_iteratorState trace_isCountReachedState conforms_Cons update_conv'
            counter_def)
    from second_regeneration [OF this m v]
    show ?thesis
      using assms(2,3) Cons TaskSucceeded v
      by (simp add: trace_iteratorState trace_isCountReachedState bounded_Cons update_conv'
            loop_states_def counter_def)
  qed
qed


lemma first_regeneration:
  assumes "conforms (trace alternateQueryGeneratorState (JObj kvs) rs)"
    and "map_of kvs ''iterator'' = Some w" and "field ''Payload'' w = Some (counter 1)"
  shows "bounded 3 (trace alternateQueryGeneratorState (JObj kvs) rs)"
  using assms
  by (auto simp: trace_alternateQueryGeneratorState update_conv'
        conforms_Cons conforms_Nil bounded_Cons bounded_Nil loop_states_def counter_def
        second_iteration
      split: list.splits response.splits)

lemma first_iteration:
  assumes "conforms (trace iteratorState (JObj kvs) rs)"
    and "map_of kvs ''iterator''
           = Some (JObj [(''count'', JNum 3), (''index'', JNum 0), (''step'', JNum 1)])"
  shows "bounded 1 (trace iteratorState (JObj kvs) rs)"
proof (cases rs)
  case Nil
  with assms show ?thesis
    by (simp add: trace_iteratorState bounded_Cons bounded_Nil loop_states_def)
next
  case (Cons r rs')
  show ?thesis
  proof (cases r)
    case TaskFailed
    with Cons assms show ?thesis
      by (simp add: trace_iteratorState bounded_Cons bounded_Nil loop_states_def)
  next
    case (TaskSucceeded v)
    let ?kvs = "AList.update ''iterator'' v kvs"
    from assms Cons TaskSucceeded have v: "field ''Payload'' v = Some (counter 1)"
      by (auto simp: trace_iteratorState conforms_Cons iterate_unit_def counter_of_def counter_def
            split: option.splits)
    have m: "map_of ?kvs ''iterator'' = Some v"
      by (simp add: update_conv')
    from assms(1) Cons TaskSucceeded
    have "conforms (trace alternateQueryGeneratorState (JObj ?kvs) rs')"
      using v
      by (simp add: trace_iteratorState trace_isCountReachedState conforms_Cons update_conv'
            counter_def)
    from first_regeneration [OF this m v]
    have "bounded (Suc (Suc (Suc 0))) (trace alternateQueryGeneratorState (JObj ?kvs) rs')"
      by (simp add: numeral_3_eq_3)
    then show ?thesis
      using assms(2) Cons TaskSucceeded v
      by (simp add: trace_iteratorState trace_isCountReachedState bounded_Cons update_conv'
            loop_states_def counter_def)
  qed
qed

lemma loop_entry_bounded:
  assumes "conforms (trace configureCountState c rs)"
  shows "\<exists>t. trace configureCountState c rs = (configureCountState, c, None) # t
          \<and> bounded 1 t
          \<and> (t \<noteq> [] \<longrightarrow>
                get_path [''iterator''] (fst (snd (hd t)))
                  = Some (JObj [(''count'', JNum 3), (''index'', JNum 0), (''step'', JNum 1)]))"
proof (cases c)
  case (JObj kvs)
  let ?kvs = "AList.update ''iterator''
                (JObj [(''count'', JNum 3), (''index'', JNum 0), (''step'', JNum 1)]) kvs"
  have t: "trace configureCountState c rs
             = (configureCountState, c, None) # trace iteratorState (JObj ?kvs) rs"
    using JObj by (simp add: trace_configureCountState)
  have hd: "hd (trace iteratorState (JObj ?kvs) rs) = (iteratorState, JObj ?kvs,
              case rs of [] \<Rightarrow> None | r # rs' \<Rightarrow> Some r)"
    by (simp add: trace_iteratorState split: list.splits response.splits option.splits)
  from assms t have "conforms (trace iteratorState (JObj ?kvs) rs)"
    by (simp add: conforms_Cons)
  then have "bounded 1 (trace iteratorState (JObj ?kvs) rs)"
    by (rule first_iteration) (simp add: update_conv')
  with t hd show ?thesis
    by (simp add: update_conv')
qed (simp_all add: trace_configureCountState bounded_Nil)


lemma loop_part_cases:
  "loop_part (trace s c rs) = []
   \<or> (\<exists>c' rs'. loop_part (trace s c rs) = trace configureCountState c' rs')"
proof (cases "\<exists>v \<in> set (trace s c rs). fst v = configureCountState")
  case False
  then show ?thesis by (simp add: loop_part_def dropWhile_eq_Nil_conv)
next
  case True
  then obtain v where v: "v \<in> set (trace s c rs)" "fst v = configureCountState" by blast
  from trace_split [OF v(1)] v(2) obtain pre rs'
    where t: "trace s c rs = pre @ trace configureCountState (fst (snd v)) rs'"
      and anc: "\<forall>u \<in> set pre. (fst u, configureCountState) \<in> edges\<^sup>+"
    by auto
  have "fst u \<noteq> configureCountState" if "u \<in> set pre" for u
    using path_level [of "fst u" configureCountState] anc that
    by (auto simp: autocorrect_loop_def)
  then have "loop_part (trace s c rs) = loop_part (trace configureCountState (fst (snd v)) rs')"
    unfolding loop_part_def t by (intro dropWhile_append2) simp
  also have "\<dots> = trace configureCountState (fst (snd v)) rs'"
    by (simp add: loop_part_def trace_configureCountState split: option.splits)
  finally show ?thesis by blast
qed

lemma conforms_loop_part:
  assumes "conforms t"
  shows "conforms (loop_part t)"
  using assms by (auto simp: conforms_def loop_part_def list_all_iff dest: set_dropWhileD)

lemma invocations_map:
  "invocations fn t = length (filter (\<lambda>s. lambda_of (definition_of s) = Some fn) (map fst t))"
  by (simp add: invocations_def filter_map comp_def)

lemma filter_take_le: "length (filter P (take n xs)) \<le> length (filter P xs)"
proof -
  have "length (filter P xs) = length (filter P (take n xs)) + length (filter P (drop n xs))"
    by (metis append_take_drop_id filter_append length_append)
  then show ?thesis by simp
qed

lemma invocations_in_loop:
  assumes "map fst t = take n loop_states"
  shows "invocations queryGeneratorFunction t \<le> 2"
    and "invocations autocorrectQueryFunction t \<le> 3"
proof -
  have "invocations queryGeneratorFunction t
          \<le> length (filter (\<lambda>s. lambda_of (definition_of s) = Some queryGeneratorFunction)
                loop_states)"
    unfolding invocations_map assms by (rule filter_take_le)
  then show "invocations queryGeneratorFunction t \<le> 2"
    by (simp add: loop_states_def)
  have "invocations autocorrectQueryFunction t
          \<le> length (filter (\<lambda>s. lambda_of (definition_of s) = Some autocorrectQueryFunction)
                loop_states)"
    unfolding invocations_map assms by (rule filter_take_le)
  then show "invocations autocorrectQueryFunction t \<le> 3"
    by (simp add: loop_states_def)
qed

lemma step_succeeded:
  assumes "step s c rs = (v, Stop (Succeeded c'))"
  shows "s = outputState"
  using assms
  by (cases s)
     (auto simp: step_def run_task_def
           split: list.splits response.splits option.splits bool.splits)

lemma final_published:
  "final s c rs = Succeeded d \<Longrightarrow> fst (last (trace s c rs)) = outputState"
proof (induction s c rs rule: run.induct)
  case (1 s c rs)
  show ?case
  proof (cases s c rs rule: trace_cases)
    case (stop v out)
    with "1.prems" have "step s c rs = (v, Stop (Succeeded d))"
      by (simp add: final_unfold [of s c rs])
    then have "s = outputState" by (rule step_succeeded)
    moreover from stop(1) step_visit(1) [of s c rs] have "fst v = s" by simp
    ultimately show ?thesis using stop(2) by simp
  next
    case (goto v s' c' rs')
    with "1.prems" have "final s' c' rs' = Succeeded d"
      by (simp add: final_unfold [of s c rs])
    from "1.IH" [OF goto(1) [symmetric] refl this] goto(2) trace_nonempty [of s' c' rs']
    show ?thesis by simp
  qed
qed

lemma complete_loop:
  assumes "map fst t = take (length t) loop_states" and "t \<noteq> []"
    and "fst (last t) = outputState"
  shows "map fst t = loop_states"
proof -
  have "length t = length (take (length t) loop_states)"
    using assms(1) by (metis length_map)
  then have le: "length t \<le> 10"
    by (simp add: length_loop_states)
  have "\<not> length t \<le> 9"
  proof
    assume "length t \<le> 9"
    then have "set (take (length t) loop_states) \<subseteq> set (take 9 loop_states)"
      by (rule set_take_subset_set_take)
    moreover have "outputState \<notin> set (take 9 loop_states)"
      by (simp add: loop_states_def)
    moreover have "last (map fst t) \<in> set (map fst t)"
      using assms(2) by (intro last_in_set) simp
    moreover have "last (map fst t) = outputState"
      using assms(2,3) by (simp add: last_map)
    ultimately show False using assms(1) by auto
  qed
  with le have "length t = 10" by simp
  with assms(1) show ?thesis by (simp add: length_loop_states)
qed

section \<open>Unfolding the constructor\<close>

lemmas constructor_defs =
  constructor_def validateDbProps_def required_props_def initial_def network_def
  security_groups_def flow_log_def assign_db_def config_bucket_def
  functions_and_workflow_def create_def createSecret_def createRdsInstance_def
  createAuroraCluster_def port_of_def

text \<open>The steps around the selection leave the database fields and the secret alone.\<close>

lemma network_keeps:
  "databaseCluster (network props this) = databaseCluster this"
  "dbInstance (network props this) = dbInstance this"
  "secret (network props this) = secret this"
  by (simp_all add: network_def create_def split: option.splits prod.splits)

lemma security_groups_keeps:
  "databaseCluster (security_groups props this) = databaseCluster this"
  "dbInstance (security_groups props this) = dbInstance this"
  "secret (security_groups props this) = secret this"
  by (simp_all add: security_groups_def create_def Let_def split: option.splits)

lemma flow_log_keeps:
  "databaseCluster (flow_log this) = databaseCluster this"
  "dbInstance (flow_log this) = dbInstance this"
  "secret (flow_log this) = secret this"
  by (simp_all add: flow_log_def create_def)

lemma config_bucket_keeps: "secret (config_bucket props this) = secret this"
  by (simp add: config_bucket_def create_def split: option.splits)

text \<open>The selection starts with both database fields unassigned.\<close>

lemma unassigned_before_selection:
  "databaseCluster (flow_log (security_groups props (network props (initial props)))) = None"
  "dbInstance (flow_log (security_groups props (network props (initial props)))) = None"
  "secret (flow_log (security_groups props (network props (initial props)))) = None"
  by (simp_all add: flow_log_keeps security_groups_keeps network_keeps initial_def)

text \<open>
  Only the last branch of the selection assigns the secret, and nothing after the
  selection does: with any of the four database properties the constructor throws when
  it reads the secret's ARN.
\<close>

lemma assign_db_keeps_secret:
  assumes "existingAuroraDbCluster props \<noteq> None \<or> databaseClusterProps props \<noteq> None
         \<or> existingRdsDbInstance props \<noteq> None \<or> databaseInstanceProps props \<noteq> None"
  shows "\<exists>this'. assign_db props port this = Inr this' \<and> secret this' = secret this"
  using assms
  by (auto simp: assign_db_def create_def Let_def split: option.splits)

lemma functions_need_secret:
  assumes "secret this = None"
  shows "\<exists>created. functions_and_workflow this = Inl (TypeError ''secretArn'', created)"
  using assms by (simp add: functions_and_workflow_def create_def Let_def)

lemma secret_unassigned:
  assumes "validateDbProps props = Inr ()"
    and "existingAuroraDbCluster props \<noteq> None \<or> databaseClusterProps props \<noteq> None
         \<or> existingRdsDbInstance props \<noteq> None \<or> databaseInstanceProps props \<noteq> None"
  shows "\<exists>created. constructor props = Inl (TypeError ''secretArn'', created)"
proof -
  let ?this = "flow_log (security_groups props (network props (initial props)))"
  from assign_db_keeps_secret [OF assms(2), of "port_of props" ?this]
  obtain this' where s: "assign_db props (port_of props) ?this = Inr this'"
    and "secret this' = secret ?this"
    by blast
  then have "secret (config_bucket props this') = None"
    by (simp add: config_bucket_keeps unassigned_before_selection)
  from functions_need_secret [OF this] obtain created
    where "functions_and_workflow (config_bucket props this') = Inl (TypeError ''secretArn'', created)"
    by blast
  with assms(1) s show ?thesis
    by (simp add: constructor_def)
qed

section \<open>Claims about the workflow\<close>

text \<open>
  Claim C1, amended. In every run in which the first ExecuteQuery invocation returns the
  status \<open>QUERY_ERROR\<close> and the Iterate unit reports \<open>continue = true\<close> once and then
  \<open>false\<close>, GenerateQuery is invoked exactly twice, ExecuteQuery exactly once and Iterate
  exactly twice (the loop regenerates the query and iterates again, it does not execute
  the regenerated query), and the run enters the publishing state exactly once, as its
  last state. That state sends exactly one message when the three fields of the message
  body are present in its input, and fails without sending when one of them is absent.
\<close>

theorem scenario_C_counts:
  assumes "scenario_C (trace startState c0 rs)"
  shows "invocations queryGeneratorFunction (trace startState c0 rs) = 2
    \<and> invocations queryExecutorFunction (trace startState c0 rs) = 1
    \<and> invocations autocorrectQueryFunction (trace startState c0 rs) = 2
    \<and> entries outputState (trace startState c0 rs) = 1
    \<and> fst (last (trace startState c0 rs)) = outputState
    \<and> messages outputQueue (trace startState c0 rs) =
         (case render_body (fst (snd (last (trace startState c0 rs)))) publish_body of
            None \<Rightarrow> []
          | Some m \<Rightarrow> [m])"
proof -
  from start_C [OF assms]
  have t: "tally (trace startState c0 rs) = (2, 1, 2, 1)"
    and p: "published_at_end (trace startState c0 rs)"
    by simp_all
  obtain s c r where v: "last (trace startState c0 rs) = (s, c, r)"
    by (cases "last (trace startState c0 rs)")
  from p v have "s = outputState"
    and "messages outputQueue (trace startState c0 rs) = message_of outputQueue (outputState, c, r)"
    by (simp_all add: published_at_end_def)
  with t v show ?thesis
    by (simp add: tally_def)
qed

theorem scenario_C_counts_witness:
  "scenario_C (trace startState (JObj []) scenario_C_answers)
   \<and> invocations queryGeneratorFunction (trace startState (JObj []) scenario_C_answers) = 2
   \<and> invocations queryExecutorFunction (trace startState (JObj []) scenario_C_answers) = 1
   \<and> invocations autocorrectQueryFunction (trace startState (JObj []) scenario_C_answers) = 2
   \<and> entries outputState (trace startState (JObj []) scenario_C_answers) = 1
   \<and> messages outputQueue (trace startState (JObj []) scenario_C_answers) =
        [JObj [(''result'', JObj [(''type'', JNum 1), (''value'', JStr ''42'')]),
               (''user_question'', JObj [(''type'', JNum 1), (''value'', JStr ''q'')]),
               (''question_unique_id'', JObj [(''type'', JNum 1), (''value'', JStr ''7'')])]]"
proof -
  have h: "scenario_C (trace startState (JObj []) scenario_C_answers)"
    by (simp add: scenario_C_def startState_def trace_at scenario_C_answers_def
          reformulated_def generated_def executed_def iterated_def sent_def)
  have m: "render_body (fst (snd (last (trace startState (JObj []) scenario_C_answers))))
             publish_body =
        Some (JObj [(''result'', JObj [(''type'', JNum 1), (''value'', JStr ''42'')]),
               (''user_question'', JObj [(''type'', JNum 1), (''value'', JStr ''q'')]),
               (''question_unique_id'', JObj [(''type'', JNum 1), (''value'', JStr ''7'')])])"
    by (simp add: startState_def trace_at scenario_C_answers_def render_body_def publish_body_def
          reformulated_def generated_def executed_def iterated_def sent_def)
  from scenario_C_counts [OF h] h m show ?thesis by simp
qed

text \<open>
  The claim as written asks for two ExecuteQuery invocations and for one published
  message. The first run below meets its conditions and invokes ExecuteQuery once. The
  second meets them too, with a failed execution that returns no \<open>result\<close>, and publishes
  nothing.
\<close>

theorem scenario_C_two_executions_counterexample:
  "scenario_C (trace startState (JObj []) scenario_C_answers)
   \<and> map fst (trace startState (JObj []) scenario_C_answers) =
       [reformulateQuestionState, feedbackChoiceStateOne, queryGeneratorTwoState,
        feedbackChoiceStateTwo, executeQueryChoiceState, queryExecutorState,
        autocorrectChoiceState, configureCountState, iteratorState, isCountReachedState,
        alternateQueryGeneratorState, iteratorState, isCountReachedState, outputState]
   \<and> invocations queryExecutorFunction (trace startState (JObj []) scenario_C_answers) \<noteq> 2
   \<and> scenario_C (trace startState (JObj []) resultless_answers)
   \<and> messages outputQueue (trace startState (JObj []) resultless_answers) = []"
proof -
  have "scenario_C (trace startState (JObj []) scenario_C_answers)
   \<and> map fst (trace startState (JObj []) scenario_C_answers) =
       [reformulateQuestionState, feedbackChoiceStateOne, queryGeneratorTwoState,
        feedbackChoiceStateTwo, executeQueryChoiceState, queryExecutorState,
        autocorrectChoiceState, configureCountState, iteratorState, isCountReachedState,
        alternateQueryGeneratorState, iteratorState, isCountReachedState, outputState]
   \<and> invocations queryExecutorFunction (trace startState (JObj []) scenario_C_answers) \<noteq> 2"
    by (simp add: scenario_C_def startState_def trace_at scenario_C_answers_def
          reformulated_def generated_def executed_def iterated_def sent_def)
  moreover have "scenario_C (trace startState (JObj []) resultless_answers)
   \<and> messages outputQueue (trace startState (JObj []) resultless_answers) = []"
    by (simp add: scenario_C_def startState_def trace_at resultless_answers_def
          render_body_def publish_body_def
          reformulated_def generated_def executed_without_result_def iterated_def sent_def)
  ultimately show ?thesis by simp
qed



text \<open>
  Claim C3. In every run in which the execution context that the first branch point
  works on carries a \<open>semantic_layer_strategy\<close> other than \<open>human\<close> (absent included), the
  feedback checkpoint on the reformulated question is never entered: no message about the
  reformulation goes to the reviewer queue.
\<close>

theorem no_feedback_on_question:
  assumes "\<forall>v \<in> set (trace startState c0 rs).
             fst v = feedbackChoiceStateOne \<longrightarrow>
             semantic_layer_strategy (fst (snd v)) \<noteq> Some (JStr ''human'')"
  shows "\<not> visited reformulatedQuestionFeedbackState (trace startState c0 rs)"
proof -
  have later: "\<not> visited reformulatedQuestionFeedbackState (trace queryGeneratorTwoState c rs')"
    for c rs'
    by (rule not_visited_above) simp
  have choice: "\<not> visited reformulatedQuestionFeedbackState (trace feedbackChoiceStateOne c rs')"
    if "\<forall>v \<in> set (trace feedbackChoiceStateOne c rs').
             fst v = feedbackChoiceStateOne \<longrightarrow>
             semantic_layer_strategy (fst (snd v)) \<noteq> Some (JStr ''human'')" for c rs'
    using that later
    by (auto simp: trace_feedbackChoiceStateOne semantic_layer_strategy_def
             split: option.splits if_splits)
  from assms choice show ?thesis
    by (auto simp: startState_def trace_reformulateQuestionState
             split: list.splits response.splits option.splits)
qed

theorem no_feedback_on_question_witness:
  "map fst (trace startState (JObj []) [reformulated ''automatic''])
     = [reformulateQuestionState, feedbackChoiceStateOne, queryGeneratorTwoState]
   \<and> semantic_layer_strategy (fst (snd (trace startState (JObj []) [reformulated ''automatic''] ! 1)))
       = Some (JStr ''automatic'')
   \<and> \<not> visited reformulatedQuestionFeedbackState
          (trace startState (JObj []) [reformulated ''automatic''])"
proof -
  have t: "map fst (trace startState (JObj []) [reformulated ''automatic''])
        = [reformulateQuestionState, feedbackChoiceStateOne, queryGeneratorTwoState]"
    by (simp add: startState_def trace_at reformulated_def)
  have s: "semantic_layer_strategy
             (fst (snd (trace startState (JObj []) [reformulated ''automatic''] ! 1)))
       = Some (JStr ''automatic'')"
    by (simp add: startState_def trace_at reformulated_def semantic_layer_strategy_def)
  have h: "\<forall>v \<in> set (trace startState (JObj []) [reformulated ''automatic'']).
      fst v = feedbackChoiceStateOne \<longrightarrow>
      semantic_layer_strategy (fst (snd v)) \<noteq> Some (JStr ''human'')"
    by (simp add: startState_def trace_at reformulated_def semantic_layer_strategy_def)
  from no_feedback_on_question [OF h] t s show ?thesis by simp
qed

text \<open>
  Claim C4. In a run that reaches the execute-gate with
  \<open>queryConfig.Payload.execute_sql_strategy\<close> equal to \<open>disabled\<close>, ExecuteQuery is never
  invoked, the gate goes directly to the publishing state, and a message is published
  without a result of ExecuteQuery. The code does the first two and not the third: in the
  run below (Reformulate and GenerateQuery answer, execution is disabled) the publishing
  state is entered right after the gate, and since nothing has written
  \<open>queryStatus.Payload.result\<close>, which the message body reads, the state fails and no
  message is sent.
\<close>

theorem publish_fails_when_execution_disabled:
  "map fst (trace startState (JObj []) disabled_answers) =
     [reformulateQuestionState, feedbackChoiceStateOne, queryGeneratorTwoState,
      feedbackChoiceStateTwo, executeQueryChoiceState, outputState]
   \<and> get_path [''queryConfig'', ''Payload'', ''execute_sql_strategy'']
        (fst (snd (trace startState (JObj []) disabled_answers ! 4)))
       = Some (JStr ''disabled'')
   \<and> invocations queryExecutorFunction (trace startState (JObj []) disabled_answers) = 0
   \<and> get_path [''queryStatus'', ''Payload'', ''result'']
        (fst (snd (last (trace startState (JObj []) disabled_answers)))) = None
   \<and> get_path [''user_question'']
        (fst (snd (last (trace startState (JObj []) disabled_answers)))) = Some (JStr ''q'')
   \<and> messages outputQueue (trace startState (JObj []) disabled_answers) = []
   \<and> final startState (JObj []) disabled_answers = Failed outputState"
proof -
  have "map fst (trace startState (JObj []) disabled_answers) =
     [reformulateQuestionState, feedbackChoiceStateOne, queryGeneratorTwoState,
      feedbackChoiceStateTwo, executeQueryChoiceState, outputState]
   \<and> get_path [''queryConfig'', ''Payload'', ''execute_sql_strategy'']
        (fst (snd (trace startState (JObj []) disabled_answers ! 4)))
       = Some (JStr ''disabled'')
   \<and> invocations queryExecutorFunction (trace startState (JObj []) disabled_answers) = 0"
    by (simp add: startState_def trace_at disabled_answers_def
          reformulated_def generated_def sent_def)
  moreover have "get_path [''queryStatus'', ''Payload'', ''result'']
        (fst (snd (last (trace startState (JObj []) disabled_answers)))) = None
   \<and> get_path [''user_question'']
        (fst (snd (last (trace startState (JObj []) disabled_answers)))) = Some (JStr ''q'')
   \<and> messages outputQueue (trace startState (JObj []) disabled_answers) = []"
    by (simp add: startState_def trace_at disabled_answers_def render_body_def publish_body_def
          reformulated_def generated_def sent_def)
  moreover have "final startState (JObj []) disabled_answers = Failed outputState"
    by (simp add: startState_def final_at disabled_answers_def render_body_def publish_body_def
          reformulated_def generated_def sent_def)
  ultimately show ?thesis by simp
qed

text \<open>
  Claim C5, amended. The execute-gate tests exactly the field path
  \<open>queryConfig.Payload.execute_sql_strategy\<close>: when the field equals the string
  \<open>disabled\<close> the next state is the publishing state, and for every other value of the
  field the next state is the query executor. When the field is absent neither branch is
  taken: the rule cannot be evaluated and the execution fails at the gate.
\<close>

theorem execute_gate:
  "definition_of executeQueryChoiceState =
     Choice [] [(stringEquals [''queryConfig'', ''Payload'', ''execute_sql_strategy''] ''disabled'',
                 outputState)] (Some queryExecutorState)
   \<and> step executeQueryChoiceState c rs =
       ((executeQueryChoiceState, c, None),
        (case get_path [''queryConfig'', ''Payload'', ''execute_sql_strategy''] c of
           None \<Rightarrow> Stop (Failed executeQueryChoiceState)
         | Some v \<Rightarrow>
             Goto (if v = JStr ''disabled'' then outputState else queryExecutorState) c rs))"
  by (simp add: step_def split: option.splits)

theorem execute_gate_witness:
  "step executeQueryChoiceState
     (JObj [(''queryConfig'', JObj [(''Payload'',
        JObj [(''execute_sql_strategy'', JStr ''disabled'')])])]) []
     = ((executeQueryChoiceState,
         JObj [(''queryConfig'', JObj [(''Payload'',
           JObj [(''execute_sql_strategy'', JStr ''disabled'')])])], None),
        Goto outputState
          (JObj [(''queryConfig'', JObj [(''Payload'',
             JObj [(''execute_sql_strategy'', JStr ''disabled'')])])]) [])
   \<and> step executeQueryChoiceState
     (JObj [(''queryConfig'', JObj [(''Payload'',
        JObj [(''execute_sql_strategy'', JNull)])])]) []
     = ((executeQueryChoiceState,
         JObj [(''queryConfig'', JObj [(''Payload'',
           JObj [(''execute_sql_strategy'', JNull)])])], None),
        Goto queryExecutorState
          (JObj [(''queryConfig'', JObj [(''Payload'',
             JObj [(''execute_sql_strategy'', JNull)])])]) [])"
  using execute_gate [of "JObj [(''queryConfig'', JObj [(''Payload'',
        JObj [(''execute_sql_strategy'', JStr ''disabled'')])])]" "[]"]
    execute_gate [of "JObj [(''queryConfig'', JObj [(''Payload'',
        JObj [(''execute_sql_strategy'', JNull)])])]" "[]"]
  by simp

text \<open>
  The claim as written sends a run with the field absent to the query executor. With an
  empty context the gate fails instead.
\<close>

theorem execute_gate_absent_counterexample:
  "get_path [''queryConfig'', ''Payload'', ''execute_sql_strategy''] (JObj []) = None
   \<and> step executeQueryChoiceState (JObj []) []
       = ((executeQueryChoiceState, JObj [], None), Stop (Failed executeQueryChoiceState))
   \<and> step executeQueryChoiceState (JObj []) []
       \<noteq> ((executeQueryChoiceState, JObj [], None), Goto queryExecutorState (JObj []) [])"
  by (simp add: step_def)

text \<open>
  Claim C6. Every branch point of the graph has rules that each compare one field path
  with a literal string or a literal boolean for equality, no compound, numeric or
  presence condition, and every branch point declares an \<open>otherwise\<close> branch.
\<close>

theorem branch_conditions_exact:
  assumes "definition_of s = Choice ip rules other"
  shows "(\<forall>(cnd, t) \<in> set rules. exact_match cnd \<and> length (condition_paths cnd) = 1)
         \<and> other \<noteq> None"
  using assms by (cases s) auto

theorem branch_conditions_exact_witness:
  "definition_of isCountReachedState =
     Choice [] [(booleanEquals [''iterator'', ''Payload'', ''continue''] True,
                 alternateQueryGeneratorState)] (Some outputState)
   \<and> exact_match (booleanEquals [''iterator'', ''Payload'', ''continue''] True)
   \<and> Some outputState \<noteq> None"
  using branch_conditions_exact [of isCountReachedState "[]"
      "[(booleanEquals [''iterator'', ''Payload'', ''continue''] True,
         alternateQueryGeneratorState)]" "Some outputState"]
  by simp

text \<open>
  Claim C7. The graph starts at the Reformulate state, which no edge enters; every state
  is reachable from it; the publishing state is reachable from every state and is the only
  state without a successor; and the states that lie on a cycle are exactly the three of
  the autocorrect loop.
\<close>

theorem graph_shape:
  "startState = reformulateQuestionState
   \<and> (\<forall>s. (s, startState) \<notin> edges)
   \<and> (\<forall>s. (startState, s) \<in> edges\<^sup>*)
   \<and> (\<forall>s. (s, outputState) \<in> edges\<^sup>*)
   \<and> (\<forall>s. (successors s = []) = (s = outputState))
   \<and> (\<forall>s. ((s, s) \<in> edges\<^sup>+) = (s \<in> autocorrect_loop))"
proof (intro conjI allI)
  show "startState = reformulateQuestionState" by (simp add: startState_def)
next
  fix s show "(s, startState) \<notin> edges"
    by (cases s) (simp_all add: edges_def successors_def startState_def)
next
  fix s show "(startState, s) \<in> edges\<^sup>*"
    by (rule reach_in_sound [OF all_reached])
next
  fix s show "(s, outputState) \<in> edges\<^sup>*"
    by (rule reach_in_sound [OF all_reach_output])
next
  fix s show "(successors s = []) = (s = outputState)"
    by (cases s) (simp_all add: successors_def)
next
  fix s show "((s, s) \<in> edges\<^sup>+) = (s \<in> autocorrect_loop)"
    using path_level [of s s] loop_cycle [of s] by auto
qed

theorem graph_shape_witness:
  "(startState, alternateQueryGeneratorState) \<in> edges\<^sup>*
   \<and> (alternateQueryGeneratorState, outputState) \<in> edges\<^sup>*
   \<and> (queryExecutorState, queryExecutorState) \<notin> edges\<^sup>+"
  using graph_shape by (auto simp: autocorrect_loop_def)

section \<open>Claims about the construct\<close>

text \<open>
  Claim C8. Whenever both members of one of the pairings \<open>existingAuroraDbCluster\<close> and
  \<open>databaseClusterProps\<close>, \<open>existingRdsDbInstance\<close> and \<open>databaseInstanceProps\<close>, or
  \<open>existingAuroraDbCluster\<close> and \<open>existingRdsDbInstance\<close> are supplied, the constructor
  throws an error before it has created any resource; properties that violate none of the
  pairings pass the validation.
\<close>

theorem rejects_exclusive_props:
  "(violates_pairing props \<longrightarrow> (\<exists>msg. constructor props = Inl (Error msg, [])))
   \<and> (\<not> violates_pairing props \<longrightarrow> validateDbProps props = Inr ())"
  by (auto simp: violates_pairing_def constructor_def validateDbProps_def)

theorem rejects_exclusive_props_witness:
  "violates_pairing
     (required_props\<lparr>existingAuroraDbCluster := Some ''cluster'',
                     databaseClusterProps := Some ''props''\<rparr>)
   \<and> constructor
        (required_props\<lparr>existingAuroraDbCluster := Some ''cluster'',
                        databaseClusterProps := Some ''props''\<rparr>)
       = Inl (Error ''Only one of existingAuroraDbCluster or databaseClusterProps can be set at a time.'', [])
   \<and> \<not> violates_pairing (required_props\<lparr>existingRdsDbInstance := Some ''instance''\<rparr>)
   \<and> validateDbProps (required_props\<lparr>existingRdsDbInstance := Some ''instance''\<rparr>) = Inr ()"
proof -
  have a: "violates_pairing
     (required_props\<lparr>existingAuroraDbCluster := Some ''cluster'',
                     databaseClusterProps := Some ''props''\<rparr>)"
    by (simp add: violates_pairing_def required_props_def)
  have b: "\<not> violates_pairing (required_props\<lparr>existingRdsDbInstance := Some ''instance''\<rparr>)"
    by (simp add: violates_pairing_def required_props_def)
  from rejects_exclusive_props
         [of "required_props\<lparr>existingAuroraDbCluster := Some ''cluster'',
                             databaseClusterProps := Some ''props''\<rparr>"]
       rejects_exclusive_props [of "required_props\<lparr>existingRdsDbInstance := Some ''instance''\<rparr>"]
       a b
  show ?thesis
    by (auto simp: constructor_def validateDbProps_def required_props_def)
qed

text \<open>
  Claim C9. For properties that pass the validation the secret read when the query
  generator and the query executor are wired is defined, so that construction succeeds
  also with an existing cluster or instance or with cluster or instance properties. The
  code does not do this: with an existing cluster the validation passes, no secret is
  assigned, and reading \<^verbatim>\<open>this.secret.secretArn\<close> throws after ten resources have been
  created.
\<close>

theorem secret_unassigned_with_existing_cluster:
  "validateDbProps (required_props\<lparr>existingAuroraDbCluster := Some ''cluster''\<rparr>) = Inr ()
   \<and> constructor (required_props\<lparr>existingAuroraDbCluster := Some ''cluster''\<rparr>)
       = Inl (TypeError ''secretArn'',
              [Vpc ''Vpc'', SubnetGroup ''SubnetGroup'',
               SecurityGroup ''lambdaSecurityGroup'', SecurityGroup ''DBSecurityGroup'',
               LogGroup ''textToSqlConstructVPCGroup'', Role ''textToSqlConstructRole'',
               FlowLog ''FlowLog'', Bucket ''configBucket'', Role ''queryConfigFunctionRole'',
               DockerLambdaFunction ''reformulateQuestionFunction_dev''])"
  by (simp add: constructor_defs)

text \<open>
  Claim C10, amended. The database is selected in a fixed order: an existing Aurora
  cluster is used if supplied; otherwise \<open>databaseClusterProps\<close> creates a cluster;
  otherwise an existing RDS instance is used; otherwise \<open>databaseInstanceProps\<close> creates
  an instance; otherwise, for the database name MySQL, a default database is created (an
  RDS MySQL instance when the database type is RDS, else an Aurora MySQL cluster), and for
  any other database name the constructor throws \<open>Invalid database name\<close>. Whenever the
  selection does not throw, exactly one of the fields \<open>databaseCluster\<close> and \<open>dbInstance\<close>
  is assigned.
\<close>

theorem database_precedence:
  assumes "databaseCluster this = None" and "dbInstance this = None"
  shows
   "(existingAuroraDbCluster props = Some cl \<longrightarrow>
       (\<exists>this'. assign_db props port this = Inr this'
          \<and> databaseCluster this' = Some (Existing cl) \<and> dbInstance this' = None))
    \<and> (existingAuroraDbCluster props = None \<and> databaseClusterProps props = Some cp \<longrightarrow>
       (\<exists>this'. assign_db props port this = Inr this'
          \<and> databaseCluster this'
               = Some (New (DatabaseCluster (''AuroraCluster'' @ this_stage this) (FromProps cp)))
          \<and> dbInstance this' = None))
    \<and> (existingAuroraDbCluster props = None \<and> databaseClusterProps props = None
          \<and> existingRdsDbInstance props = Some i \<longrightarrow>
       (\<exists>this'. assign_db props port this = Inr this'
          \<and> dbInstance this' = Some (Existing i) \<and> databaseCluster this' = None))
    \<and> (existingAuroraDbCluster props = None \<and> databaseClusterProps props = None
          \<and> existingRdsDbInstance props = None \<and> databaseInstanceProps props = Some ip \<longrightarrow>
       (\<exists>this'. assign_db props port this = Inr this'
          \<and> dbInstance this'
               = Some (New (DatabaseInstance (''AuroraInstance'' @ this_stage this) (FromProps ip)))
          \<and> databaseCluster this' = None))
    \<and> (existingAuroraDbCluster props = None \<and> databaseClusterProps props = None
          \<and> existingRdsDbInstance props = None \<and> databaseInstanceProps props = None
          \<and> dbName props = MYSQL \<and> databaseType props = Some RDS \<longrightarrow>
       (\<exists>this'. assign_db props port this = Inr this'
          \<and> dbInstance this'
               = Some (New (DatabaseInstance ''MysqlRdsInstance'' (Default mysql port)))
          \<and> databaseCluster this' = None))
    \<and> (existingAuroraDbCluster props = None \<and> databaseClusterProps props = None
          \<and> existingRdsDbInstance props = None \<and> databaseInstanceProps props = None
          \<and> dbName props = MYSQL \<and> databaseType props \<noteq> Some RDS \<longrightarrow>
       (\<exists>this'. assign_db props port this = Inr this'
          \<and> databaseCluster this'
               = Some (New (DatabaseCluster ''AuroraCluster'' (Default auroraMysql port)))
          \<and> dbInstance this' = None))
    \<and> (existingAuroraDbCluster props = None \<and> databaseClusterProps props = None
          \<and> existingRdsDbInstance props = None \<and> databaseInstanceProps props = None
          \<and> dbName props \<noteq> MYSQL \<longrightarrow>
       (\<exists>created. assign_db props port this = Inl (Error ''Invalid database name'', created)))
    \<and> (\<forall>this'. assign_db props port this = Inr this' \<longrightarrow>
          (databaseCluster this' = None) \<noteq> (dbInstance this' = None))"
  using assms
  by (auto simp: assign_db_def create_def createRdsInstance_def createAuroraCluster_def Let_def
           split: option.splits DbName.splits sum.splits)

theorem database_precedence_witness:
  "map_sum fst (\<lambda>this. (databaseCluster this, dbInstance this))
     (assign_db (required_props\<lparr>existingAuroraDbCluster := Some ''cluster'',
                                databaseInstanceProps := Some ''props''\<rparr>)
        3306 (initial required_props))
     = Inr (Some (Existing ''cluster''), None)
   \<and> map_sum fst (\<lambda>this. (databaseCluster this, dbInstance this))
     (assign_db (required_props\<lparr>databaseClusterProps := Some ''props'',
                                existingRdsDbInstance := Some ''instance''\<rparr>)
        3306 (initial required_props))
     = Inr (Some (New (DatabaseCluster ''AuroraCluster_dev'' (FromProps ''props''))), None)
   \<and> map_sum fst (\<lambda>this. (databaseCluster this, dbInstance this))
     (assign_db (required_props\<lparr>existingRdsDbInstance := Some ''instance''\<rparr>)
        3306 (initial required_props))
     = Inr (None, Some (Existing ''instance''))
   \<and> map_sum fst (\<lambda>this. (databaseCluster this, dbInstance this))
     (assign_db (required_props\<lparr>databaseInstanceProps := Some ''props''\<rparr>)
        3306 (initial required_props))
     = Inr (None, Some (New (DatabaseInstance ''AuroraInstance_dev'' (FromProps ''props''))))
   \<and> map_sum fst (\<lambda>this. (databaseCluster this, dbInstance this))
     (assign_db (required_props\<lparr>databaseType := Some RDS\<rparr>) 3306 (initial required_props))
     = Inr (None, Some (New (DatabaseInstance ''MysqlRdsInstance'' (Default mysql 3306))))
   \<and> map_sum fst (\<lambda>this. (databaseCluster this, dbInstance this))
     (assign_db required_props 3306 (initial required_props))
     = Inr (Some (New (DatabaseCluster ''AuroraCluster'' (Default auroraMysql 3306))), None)
   \<and> map_sum fst (\<lambda>this. (databaseCluster this, dbInstance this))
     (assign_db (required_props\<lparr>dbName := POSTGRESQL\<rparr>) 3306 (initial required_props))
     = Inl (Error ''Invalid database name'')"
proof -
  have a: "databaseCluster (initial required_props) = None"
    and b: "dbInstance (initial required_props) = None"
    by (simp_all add: initial_def)
  note p = database_precedence [OF a b, where port = 3306]
  from p [of "required_props\<lparr>existingAuroraDbCluster := Some ''cluster'',
                                databaseInstanceProps := Some ''props''\<rparr>" "''cluster''"]
       p [of "required_props\<lparr>databaseClusterProps := Some ''props'',
                                existingRdsDbInstance := Some ''instance''\<rparr>" _ "''props''"]
       p [of "required_props\<lparr>existingRdsDbInstance := Some ''instance''\<rparr>" _ _ "''instance''"]
       p [of "required_props\<lparr>databaseInstanceProps := Some ''props''\<rparr>" _ _ _ "''props''"]
       p [of "required_props\<lparr>databaseType := Some RDS\<rparr>"]
       p [of required_props]
       p [of "required_props\<lparr>dbName := POSTGRESQL\<rparr>"]
  show ?thesis
    by (simp add: required_props_def initial_def assign_db_def create_def createSecret_def
          createRdsInstance_def createAuroraCluster_def Let_def)
qed

text \<open>
  The claim as written promises an assigned field for all properties that pass the
  validation. The properties below pass it, and the selection throws with neither
  field assigned.
\<close>

theorem database_precedence_counterexample:
  "validateDbProps (required_props\<lparr>dbName := POSTGRESQL\<rparr>) = Inr ()
   \<and> assign_db (required_props\<lparr>dbName := POSTGRESQL\<rparr>)
        (port_of (required_props\<lparr>dbName := POSTGRESQL\<rparr>))
        (initial (required_props\<lparr>dbName := POSTGRESQL\<rparr>))
       = Inl (Error ''Invalid database name'', [Secret ''AuroraSecret_dev''])
   \<and> constructor (required_props\<lparr>dbName := POSTGRESQL\<rparr>)
       = Inl (Error ''Invalid database name'',
              [Vpc ''Vpc'', SubnetGroup ''SubnetGroup'',
               SecurityGroup ''lambdaSecurityGroup'', SecurityGroup ''DBSecurityGroup'',
               LogGroup ''textToSqlConstructVPCGroup'', Role ''textToSqlConstructRole'',
               FlowLog ''FlowLog'', Secret ''AuroraSecret_dev''])"
  by (simp add: constructor_defs)

end
